theory Spec2Isabelle
  imports Main "HOL-Library.Sublist"
begin

section \<open>Exceptions\<close>

text \<open>
  The exceptions that the modelled code raises, catches or lets through.
  \<open>QueueEmpty\<close> and \<open>QueueFull\<close> are the two queue exceptions imported at the top of
  \<^verbatim>\<open>imgaug.py\<close>; \<open>AssertionError\<close> is what \<^verbatim>\<open>do_assert\<close> raises;
  \<open>ValueError\<close> is what a closed \<^verbatim>\<open>multiprocessing.Queue\<close> raises on \<^verbatim>\<open>get\<close>;
  \<open>OtherException\<close> stands for every other subclass of Python's \<^verbatim>\<open>Exception\<close>;
  \<open>BaseOnly\<close> stands for the exceptions that derive from \<^verbatim>\<open>BaseException\<close>
  but not from \<^verbatim>\<open>Exception\<close> (\<^verbatim>\<open>KeyboardInterrupt\<close>, \<^verbatim>\<open>SystemExit\<close>, ...).
\<close>

datatype exn =
    QueueEmpty
  | QueueFull
  | AssertionError string
  | ValueError string
  | OtherException string
  | BaseOnly string

text \<open>\<^verbatim>\<open>isinstance(e, Exception)\<close>: what a clause \<^verbatim>\<open>except Exception\<close> catches.\<close>

fun is_Exception :: "exn \<Rightarrow> bool" where
  "is_Exception (BaseOnly _) = False"
| "is_Exception _ = True"

text \<open>\<^verbatim>\<open>do_assert(condition, message)\<close>, lines 1021-1040.\<close>

definition do_assert :: "bool \<Rightarrow> string \<Rightarrow> exn + unit" where
  "do_assert condition message =
     (if \<not> condition then Inl (AssertionError message) else Inr ())"

section \<open>Random states\<close>

text \<open>
  numpy is not part of the repository, so its generator is a parameter of the model:
  \<open>seed_vector s\<close> is the internal state vector of \<^verbatim>\<open>np.random.RandomState(s)\<close>
  (the same vector that \<^verbatim>\<open>rs.seed(s)\<close> installs), \<open>draw v\<close> is one draw of
  \<^verbatim>\<open>randint(0, 10**6)\<close> from the vector \<open>v\<close>, giving the integer and the advanced vector,
  and \<open>py_seed_vector s\<close> is the state that \<^verbatim>\<open>random.seed(s)\<close> installs in Python's own
  \<^verbatim>\<open>random\<close> module. \<open>seed_vector\<close> is read at the seeds that numpy accepts,
  \<open>0 .. 2^32 - 1\<close>; the refusal of any other seed by the constructor is part of
  \<open>RandomState_init\<close> below. The seeds that the library computes itself are a draw below
  \<open>10^6\<close> plus a worker or child index.
\<close>

record 'v rng =
  seed_vector :: "int \<Rightarrow> 'v"
  draw :: "'v \<Rightarrow> int \<times> 'v"
  py_seed_vector :: "int \<Rightarrow> 'v"

text \<open>\<^verbatim>\<open>rs.randint(0, 10**6, size=(k,))\<close> on a state vector: \<open>k\<close> successive draws.\<close>

fun randint :: "'v rng \<Rightarrow> nat \<Rightarrow> 'v \<Rightarrow> int list \<times> 'v" where
  "randint g 0 v = ([], v)"
| "randint g (Suc k) v =
     (let (x, v1) = draw g v;
          (xs, v2) = randint g k v1
      in (x # xs, v2))"

text \<open>
  What the parameter \<^verbatim>\<open>random_state\<close> of the library's functions can be bound to: the
  module \<^verbatim>\<open>np.random\<close> (which carries numpy's global state and offers the same methods)
  or an instance of \<^verbatim>\<open>np.random.RandomState\<close>, identified by its address. Python's
  \<^verbatim>\<open>==\<close> on these objects is identity, which is equality of \<open>rs_ref\<close> values.
\<close>

datatype rs_ref = NpRandom | RandomState nat

text \<open>
  The part of the interpreter state that the random-state functions read and write:
  the global state of \<^verbatim>\<open>np.random\<close>, the state of Python's \<^verbatim>\<open>random\<close> module, the
  \<^verbatim>\<open>RandomState\<close> objects allocated so far (address = position), and the operating
  system's entropy, of which \<^verbatim>\<open>np.random.RandomState(None)\<close> consumes one item.
\<close>

record 'v world =
  np_random :: 'v
  py_random :: 'v
  heap :: "'v list"
  entropy :: "nat \<Rightarrow> 'v"
  entropy_used :: nat

definition valid_ref :: "'v world \<Rightarrow> rs_ref \<Rightarrow> bool" where
  "valid_ref w r = (case r of NpRandom \<Rightarrow> True | RandomState a \<Rightarrow> a < length (heap w))"

text \<open>\<^verbatim>\<open>random_state.get_state()\<close> and \<^verbatim>\<open>random_state.set_state(v)\<close>.\<close>

definition get_state :: "'v world \<Rightarrow> rs_ref \<Rightarrow> 'v" where
  "get_state w r = (case r of NpRandom \<Rightarrow> np_random w | RandomState a \<Rightarrow> heap w ! a)"

definition set_state :: "rs_ref \<Rightarrow> 'v \<Rightarrow> 'v world \<Rightarrow> 'v world" where
  "set_state r v w =
     (case r of
        NpRandom \<Rightarrow> w\<lparr>np_random := v\<rparr>
      | RandomState a \<Rightarrow> w\<lparr>heap := (heap w)[a := v]\<rparr>)"

text \<open>The constructor \<^verbatim>\<open>np.random.RandomState(...)\<close> makes a new object.\<close>

definition alloc :: "'v \<Rightarrow> 'v world \<Rightarrow> rs_ref \<times> 'v world" where
  "alloc v w = (RandomState (length (heap w)), w\<lparr>heap := heap w @ [v]\<rparr>)"

text \<open>
  \<^verbatim>\<open>CURRENT_RANDOM_STATE = np.random.RandomState(42)\<close>, line 46: the first
  \<^verbatim>\<open>RandomState\<close> object of the process. The name is never rebound afterwards.
\<close>

definition CURRENT_RANDOM_STATE :: rs_ref where
  "CURRENT_RANDOM_STATE = RandomState 0"

definition initial_world :: "'v rng \<Rightarrow> 'v \<Rightarrow> 'v \<Rightarrow> (nat \<Rightarrow> 'v) \<Rightarrow> 'v world" where
  "initial_world g np0 py0 ent =
     \<lparr>np_random = np0, py_random = py0, heap = [seed_vector g 42],
      entropy = ent, entropy_used = 0\<rparr>"

text \<open>\<^verbatim>\<open>random_state.randint(0, 10**6, size)\<close> on an object: draws and advances it.\<close>

definition rs_randint :: "'v rng \<Rightarrow> rs_ref \<Rightarrow> nat \<Rightarrow> 'v world \<Rightarrow> int list \<times> 'v world" where
  "rs_randint g r k w =
     (let (xs, v) = randint g k (get_state w r) in (xs, set_state r v w))"

text \<open>\<^verbatim>\<open>seed(seedval)\<close>, lines 230-246.\<close>

definition seed :: "'v rng \<Rightarrow> int \<Rightarrow> 'v world \<Rightarrow> 'v world" where
  "seed g seedval w = set_state CURRENT_RANDOM_STATE (seed_vector g seedval) w"

text \<open>\<^verbatim>\<open>current_random_state()\<close>, lines 248-258.\<close>

definition current_random_state :: rs_ref where
  "current_random_state = CURRENT_RANDOM_STATE"

text \<open>
  \<^verbatim>\<open>np.random.RandomState(seed)\<close> for an integer seed. numpy accepts the seeds
  \<open>0 .. 2^32 - 1\<close> and raises \<^verbatim>\<open>ValueError\<close> for every other integer. For an accepted
  seed the result is a new object that holds the seed's vector.
\<close>

definition seed_accepted :: "int \<Rightarrow> bool" where
  "seed_accepted s = (0 \<le> s \<and> s \<le> 2 ^ 32 - 1)"

definition RandomState_accepted :: "'v rng \<Rightarrow> int \<Rightarrow> 'v world \<Rightarrow> rs_ref \<times> 'v world" where
  "RandomState_accepted g s w = alloc (seed_vector g s) w"

definition RandomState_init :: "'v rng \<Rightarrow> int \<Rightarrow> 'v world \<Rightarrow> (exn + rs_ref) \<times> 'v world" where
  "RandomState_init g s w =
     (if seed_accepted s
      then (case RandomState_accepted g s w of (r, w1) \<Rightarrow> (Inr r, w1))
      else (Inl (ValueError ''Seed must be between 0 and 2**32 - 1''), w))"

text \<open>
  \<^verbatim>\<open>new_random_state(seed=None, fully_random=False)\<close>, lines 260-287. When the seed is
  still \<^verbatim>\<open>None\<close> at line 287, numpy seeds the new object from the system's entropy.
\<close>

definition new_random_state ::
  "'v rng \<Rightarrow> int option \<Rightarrow> bool \<Rightarrow> 'v world \<Rightarrow> (exn + rs_ref) \<times> 'v world" where
  "new_random_state g seed_arg fully_random w =
     (case seed_arg of
        None \<Rightarrow>
          if \<not> fully_random then
            (let (xs, w1) = rs_randint g CURRENT_RANDOM_STATE 1 w
             in RandomState_init g (xs ! 0) w1)
          else
            (case alloc (entropy w (entropy_used w))
                    (w\<lparr>entropy_used := Suc (entropy_used w)\<rparr>) of
               (r, w1) \<Rightarrow> (Inr r, w1))
      | Some s \<Rightarrow> RandomState_init g s w)"

text \<open>\<^verbatim>\<open>dummy_random_state()\<close>, lines 289-299.\<close>

definition dummy_random_state :: "'v rng \<Rightarrow> 'v world \<Rightarrow> rs_ref \<times> 'v world" where
  "dummy_random_state g w = alloc (seed_vector g 1) w"

text \<open>\<^verbatim>\<open>copy_random_state(random_state, force_copy=False)\<close>, lines 301-328.\<close>

definition copy_random_state ::
  "'v rng \<Rightarrow> rs_ref \<Rightarrow> bool \<Rightarrow> 'v world \<Rightarrow> rs_ref \<times> 'v world" where
  "copy_random_state g random_state force_copy w =
     (if random_state = NpRandom \<and> \<not> force_copy then (random_state, w)
      else
        (let (rs_copy, w1) = dummy_random_state g w;
             orig_state = get_state w1 random_state;
             w2 = set_state rs_copy orig_state w1
         in (rs_copy, w2)))"

text \<open>
  The comprehension \<^verbatim>\<open>[new_random_state(seed+i) for i in sm.xrange(n)]\<close> of line 367,
  given the list of the values \<^verbatim>\<open>seed+i\<close>. These seeds are a draw of
  \<^verbatim>\<open>randint(0, 10**6)\<close> plus an index below \<open>n\<close>, which numpy accepts, so that each call
  is the constructor on an accepted seed.
\<close>

fun new_random_states :: "'v rng \<Rightarrow> int list \<Rightarrow> 'v world \<Rightarrow> rs_ref list \<times> 'v world" where
  "new_random_states g [] w = ([], w)"
| "new_random_states g (s # ss) w =
     (let (r, w1) = RandomState_accepted g s w;
          (rs, w2) = new_random_states g ss w1
      in (r # rs, w2))"

text \<open>\<^verbatim>\<open>derive_random_states(random_state, n=1)\<close>, lines 348-367.\<close>

definition derive_random_states ::
  "'v rng \<Rightarrow> rs_ref \<Rightarrow> int \<Rightarrow> 'v world \<Rightarrow> rs_ref list \<times> 'v world" where
  "derive_random_states g random_state n w =
     (let (xs, w1) = rs_randint g random_state 1 w;
          seed_val = xs ! 0
      in new_random_states g (map (\<lambda>i. seed_val + int i) [0..<nat n]) w1)"

text \<open>
  The states that the specification promises for the children of a state whose vector
  is \<open>v\<close>: seeded \<open>s, s+1, ..., s+n-1\<close>, where \<open>s\<close> is the one integer drawn from \<open>v\<close>.
\<close>

definition child_vectors :: "'v rng \<Rightarrow> 'v \<Rightarrow> int \<Rightarrow> 'v list" where
  "child_vectors g v n = map (\<lambda>i. seed_vector g (fst (draw g v) + int i)) [0..<nat n]"

text \<open>
  A small linear congruential generator, used where the model is evaluated on a
  concrete input; every theorem below holds for any generator.
\<close>

definition lcg :: "int rng" where
  "lcg = \<lparr>seed_vector = (\<lambda>s. s),
          draw = (\<lambda>v. ((v * 1103515245 + 12345) mod 1000000, (v * 1103515245 + 12345) mod 2147483648)),
          py_seed_vector = (\<lambda>s. s + 1)\<rparr>"

definition lcg_world :: "int world" where
  "lcg_world = initial_world lcg 7 9 (\<lambda>k. int k + 100)"

section \<open>Batches and the augmentation capability\<close>

text \<open>
  \<^verbatim>\<open>class Batch\<close>, lines 3573-3604. Every field may hold \<^verbatim>\<open>None\<close>; images of all kinds
  have type \<open>'a\<close>, keypoint lists type \<open>'k\<close>, the caller's metadata type \<open>'d\<close>.
\<close>

record ('a, 'k, 'd) Batch =
  images :: "'a option"
  images_aug :: "'a option"
  images_gt :: "'a option"
  images_gt_aug :: "'a option"
  mask_gt :: "'a option"
  mask_gt_aug :: "'a option"
  keypoints :: "'k option"
  keypoints_aug :: "'k option"
  data :: 'd

definition Batch_init ::
  "'a option \<Rightarrow> 'a option \<Rightarrow> 'a option \<Rightarrow> 'k option \<Rightarrow> 'd \<Rightarrow> ('a, 'k, 'd) Batch" where
  "Batch_init images_arg images_gt_arg mask_gt_arg keypoints_arg data_arg =
     \<lparr>images = images_arg, images_aug = None,
      images_gt = images_gt_arg, images_gt_aug = None,
      mask_gt = mask_gt_arg, mask_gt_aug = None,
      keypoints = keypoints_arg, keypoints_aug = None,
      data = data_arg\<rparr>"

text \<open>
  The augmenters are outside the repository's core: an augmenter is a reference of type
  \<open>'g\<close>, and everything the augmenters own (parameters, random states) is an external
  state of type \<open>'x\<close> that each call may change. A call returns a value or raises.
  \<open>truthy\<close> is Python's truth value of the object, which \<^verbatim>\<open>if augseq_X:\<close> tests.
\<close>

record ('g, 'a, 'k, 'x) augmenter_api =
  augment_images :: "'g \<Rightarrow> 'a option \<Rightarrow> 'x \<Rightarrow> (exn + 'a option) \<times> 'x"
  augment_keypoints :: "'g \<Rightarrow> 'k option \<Rightarrow> 'x \<Rightarrow> (exn + 'k option) \<times> 'x"
  to_deterministic :: "'g \<Rightarrow> 'x \<Rightarrow> (exn + 'g) \<times> 'x"
  deterministic :: "'g \<Rightarrow> 'x \<Rightarrow> bool"
  reseed :: "'g \<Rightarrow> int \<Rightarrow> 'x \<Rightarrow> (exn + unit) \<times> 'x"
  truthy :: "'g \<Rightarrow> 'x \<Rightarrow> bool"

text \<open>Sequencing of calls that may raise: the first exception ends the computation.\<close>

definition ext_return :: "'r \<Rightarrow> 'x \<Rightarrow> (exn + 'r) \<times> 'x" where
  "ext_return r x = (Inr r, x)"

definition ext_bind ::
  "('x \<Rightarrow> (exn + 'r) \<times> 'x) \<Rightarrow> ('r \<Rightarrow> 'x \<Rightarrow> (exn + 's) \<times> 'x) \<Rightarrow> 'x \<Rightarrow> (exn + 's) \<times> 'x" where
  "ext_bind m f x = (case m x of (Inl e, x1) \<Rightarrow> (Inl e, x1) | (Inr r, x1) \<Rightarrow> f r x1)"

text \<open>\<^verbatim>\<open>a.to_deterministic() if not a.deterministic else a\<close>, lines 3835, 3839, 3848.\<close>

definition det_instance ::
  "('g, 'a, 'k, 'x) augmenter_api \<Rightarrow> 'g \<Rightarrow> 'x \<Rightarrow> (exn + 'g) \<times> 'x" where
  "det_instance api a x =
     (if \<not> deterministic api a x then to_deterministic api a x else (Inr a, x))"

text \<open>
  \<^verbatim>\<open>if a: ... else: ...\<close> for an optional augmenter \<open>a\<close>: \<^verbatim>\<open>None\<close> is false, an augmenter
  object has the truth value that the capability gives it.
\<close>

definition if_augmenter ::
  "('g, 'a, 'k, 'x) augmenter_api \<Rightarrow> 'g option \<Rightarrow> ('g \<Rightarrow> 'x \<Rightarrow> (exn + 'r) \<times> 'x)
     \<Rightarrow> ('x \<Rightarrow> (exn + 'r) \<times> 'x) \<Rightarrow> 'x \<Rightarrow> (exn + 'r) \<times> 'x" where
  "if_augmenter api a then_branch else_branch x =
     (case a of
        None \<Rightarrow> else_branch x
      | Some a1 \<Rightarrow> if truthy api a1 x then then_branch a1 x else else_branch x)"

section \<open>BackgroundAugmenter\<close>

text \<open>
  The attributes of a \<^verbatim>\<open>BackgroundAugmenter\<close> that its methods read or write. The three
  flags \<^verbatim>\<open>self.augment_images\<close>, \<^verbatim>\<open>self.augment_images_gt\<close> and
  \<^verbatim>\<open>self.augment_keypoints\<close> carry the prefix \<open>self_\<close> here, since the augmenters'
  methods have the same names. \<open>worker_seeds\<close> are the seeds handed to the worker
  processes at lines 3777-3779.
\<close>

record 'g BackgroundAugmenter =
  augseq :: 'g
  augseq_X :: "'g option"
  augseq_gt :: "'g option"
  nb_workers :: int
  nb_workers_finished :: int
  self_augment_images :: bool
  self_augment_images_gt :: bool
  self_augment_keypoints :: bool
  worker_seeds :: "int list"

text \<open>
  \<^verbatim>\<open>BackgroundAugmenter.__init__\<close>, lines 3749-3782. \<open>nb_workers_arg = None\<close> is the
  string \<^verbatim>\<open>"auto"\<close>; \<open>cpu_count = None\<close> means that \<^verbatim>\<open>multiprocessing.cpu_count()\<close>
  raises \<^verbatim>\<open>NotImplementedError\<close>.
\<close>

definition BackgroundAugmenter_init ::
  "'v rng \<Rightarrow> int option \<Rightarrow> 'g \<Rightarrow> 'g option \<Rightarrow> 'g option \<Rightarrow> int \<Rightarrow> int option \<Rightarrow> 'v world
     \<Rightarrow> (exn + 'g BackgroundAugmenter) \<times> 'v world" where
  "BackgroundAugmenter_init g cpu_count augseq_arg augseq_X_arg augseq_gt_arg queue_size
       nb_workers_arg w =
     (case do_assert (queue_size > 0) ''Assertion failed.'' of
        Inl e \<Rightarrow> (Inl e, w)
      | Inr _ \<Rightarrow>
          (case (case nb_workers_arg of
                   None \<Rightarrow>
                     Inr (max 1 ((case cpu_count of None \<Rightarrow> 1 | Some c \<Rightarrow> c) - 1))
                 | Some n \<Rightarrow>
                     (case do_assert (n \<ge> 1) ''Assertion failed.'' of
                        Inl e \<Rightarrow> Inl e
                      | Inr _ \<Rightarrow> Inr n)) of
             Inl e \<Rightarrow> (Inl e, w)
           | Inr n \<Rightarrow>
               (let (seeds, w1) = rs_randint g current_random_state (nat n) w
                in (Inr \<lparr>augseq = augseq_arg, augseq_X = augseq_X_arg,
                         augseq_gt = augseq_gt_arg, nb_workers = n,
                         nb_workers_finished = 0, self_augment_images = True,
                         self_augment_images_gt = True, self_augment_keypoints = True,
                         worker_seeds = seeds\<rparr>, w1))))"



text \<open>
  The body of the \<^verbatim>\<open>try\<close> block between the unpickling of the batch and the pickling of
  the result, lines 3830-3855: the augmentation of one batch.
\<close>

definition augment_batch ::
  "('g, 'a, 'k, 'x) augmenter_api \<Rightarrow> 'g BackgroundAugmenter \<Rightarrow> ('a, 'k, 'd) Batch \<Rightarrow> 'x
     \<Rightarrow> (exn + ('a, 'k, 'd) Batch) \<times> 'x" where
  "augment_batch api self batch =
     (let batch_augment_images = (images batch \<noteq> None \<and> self_augment_images self);
          batch_augment_images_gt = (images_gt batch \<noteq> None \<and> self_augment_images_gt self);
          batch_augment_keypoints = (keypoints batch \<noteq> None \<and> self_augment_keypoints self)
      in
        if batch_augment_images \<and> batch_augment_keypoints then
          ext_bind (det_instance api (augseq self)) (\<lambda>augseq_det.
          ext_bind (augment_images api augseq_det (images batch)) (\<lambda>r1.
          ext_bind (augment_keypoints api augseq_det (keypoints (batch\<lparr>images_aug := r1\<rparr>))) (\<lambda>r2.
          ext_return (batch\<lparr>images_aug := r1, keypoints_aug := r2\<rparr>))))
        else if batch_augment_images \<and> batch_augment_images_gt then
          ext_bind (det_instance api (augseq self)) (\<lambda>augseq_det.
          ext_bind (augment_images api augseq_det (images batch)) (\<lambda>r1.
          ext_bind (augment_images api augseq_det (images_gt batch)) (\<lambda>r2.
          ext_bind (augment_images api augseq_det (mask_gt batch)) (\<lambda>r3.
          ext_bind
            (if_augmenter api (augseq_X self)
               (\<lambda>aug_X. ext_bind (augment_images api aug_X r1)
                  (\<lambda>r4. ext_return (batch\<lparr>images_aug := r4, images_gt_aug := r2,
                                           mask_gt_aug := r3\<rparr>)))
               (ext_return (batch\<lparr>images_aug := r1, images_gt_aug := r2,
                                    mask_gt_aug := r3\<rparr>))) (\<lambda>batch1.
          if_augmenter api (augseq_gt self)
            (\<lambda>aug_gt.
               ext_bind (det_instance api aug_gt) (\<lambda>augseq_gt_det.
               ext_bind (augment_images api augseq_gt_det (images_gt_aug batch1)) (\<lambda>r5.
               ext_bind (augment_images api augseq_gt_det
                           (mask_gt_aug (batch1\<lparr>images_gt_aug := r5\<rparr>))) (\<lambda>r6.
               ext_return (batch1\<lparr>images_gt_aug := r5, mask_gt_aug := r6\<rparr>)))))
            (ext_return batch1))))))
        else if batch_augment_images then
          ext_bind (augment_images api (augseq self) (images batch)) (\<lambda>r1.
          ext_return (batch\<lparr>images_aug := r1\<rparr>))
        else if batch_augment_keypoints then
          ext_bind (augment_keypoints api (augseq self) (keypoints batch)) (\<lambda>r1.
          ext_return (batch\<lparr>keypoints_aug := r1\<rparr>))
        else ext_return batch)"

text \<open>
  What one round of the worker's \<^verbatim>\<open>while True\<close> loop meets: \<open>polled\<close> is the outcome of
  \<^verbatim>\<open>queue_source.get(timeout=0.1)\<close>, a payload or (\<open>None\<close>) the exception \<^verbatim>\<open>QueueEmpty\<close>
  after the timeout; \<open>source_finished\<close> is the value that
  \<^verbatim>\<open>all([signal.is_set() for signal in source_finished_signals])\<close> has in this round.
\<close>

record ('a, 'k, 'd) poll =
  polled :: "('a, 'k, 'd) Batch option"
  source_finished :: bool

text \<open>
  How a worker's run ends: its function returns, an exception leaves it, or it is still
  in its loop when the rounds that the environment was given for are used up.
\<close>

datatype worker_end = Returned | Raised exn | Running

text \<open>
  The loop of \<^verbatim>\<open>_augment_images_worker\<close>, lines 3824-3863, over the rounds of the
  environment. The first component of the result lists the messages pushed to the result
  queue, in order; \<open>None\<close> is the pickled \<^verbatim>\<open>None\<close>. The clause \<^verbatim>\<open>except QueueEmpty\<close>
  guards the whole \<^verbatim>\<open>try\<close> block, the augmentation included. The \<^verbatim>\<open>put\<close> on the result
  queue has no timeout; it is taken to go through (the caller drains the queue).
\<close>

fun augment_images_worker_loop ::
  "('g, 'a, 'k, 'x) augmenter_api \<Rightarrow> 'g BackgroundAugmenter \<Rightarrow> ('a, 'k, 'd) poll list \<Rightarrow> 'x
     \<Rightarrow> (('a, 'k, 'd) Batch option list \<times> worker_end) \<times> 'x" where
  "augment_images_worker_loop api self [] x = (([], Running), x)"
| "augment_images_worker_loop api self (t # ts) x =
     (case (case polled t of
              None \<Rightarrow> (Inl QueueEmpty, x)
            | Some batch \<Rightarrow> augment_batch api self batch x) of
        (Inr batch1, x1) \<Rightarrow>
          (case augment_images_worker_loop api self ts x1 of
             ((out, e), x2) \<Rightarrow> ((Some batch1 # out, e), x2))
      | (Inl exc, x1) \<Rightarrow>
          if exc = QueueEmpty then
            (if source_finished t then (([None], Returned), x1)
             else augment_images_worker_loop api self ts x1)
          else (([], Raised exc), x1))"

text \<open>The reseeding at the start of \<^verbatim>\<open>_augment_images_worker\<close>, lines 3815-3822.\<close>

definition augment_images_worker_reseed ::
  "'v rng \<Rightarrow> ('g, 'a, 'k, 'x) augmenter_api \<Rightarrow> 'g BackgroundAugmenter \<Rightarrow> int
     \<Rightarrow> 'v world \<times> 'x \<Rightarrow> (exn + unit) \<times> ('v world \<times> 'x)" where
  "augment_images_worker_reseed g api self seedval s =
     (let w2 = (fst s)\<lparr>np_random := seed_vector g seedval,
                       py_random := py_seed_vector g seedval\<rparr>
      in case ext_bind (reseed api (augseq self) seedval) (\<lambda>_.
              ext_bind (if_augmenter api (augseq_X self)
                          (\<lambda>aug_X. reseed api aug_X seedval) (ext_return ())) (\<lambda>_.
              if_augmenter api (augseq_gt self)
                (\<lambda>aug_gt. reseed api aug_gt seedval) (ext_return ()))) (snd s) of
           (Inl e, x1) \<Rightarrow> (Inl e, (w2, x1))
         | (Inr _, x1) \<Rightarrow> (Inr (), (seed g seedval w2, x1)))"

text \<open>\<^verbatim>\<open>_augment_images_worker\<close>, lines 3808-3863.\<close>

definition augment_images_worker ::
  "'v rng \<Rightarrow> ('g, 'a, 'k, 'x) augmenter_api \<Rightarrow> 'g BackgroundAugmenter \<Rightarrow> int
     \<Rightarrow> ('a, 'k, 'd) poll list \<Rightarrow> 'v world \<times> 'x
     \<Rightarrow> (('a, 'k, 'd) Batch option list \<times> worker_end) \<times> ('v world \<times> 'x)" where
  "augment_images_worker g api self seedval ts s =
     (case augment_images_worker_reseed g api self seedval s of
        (Inl e, s1) \<Rightarrow> (([], Raised e), s1)
      | (Inr _, s1) \<Rightarrow>
          (case augment_images_worker_loop api self ts (snd s1) of
             (r, x2) \<Rightarrow> (r, (fst s1, x2))))"

text \<open>
  The pre-augmentation fields of a batch, and the batches among the messages of a queue
  and among the rounds of a worker.
\<close>

definition pre_fields ::
  "('a, 'k, 'd) Batch \<Rightarrow> 'a option \<times> 'a option \<times> 'a option \<times> 'k option \<times> 'd" where
  "pre_fields b = (images b, images_gt b, mask_gt b, keypoints b, data b)"

definition batches_of :: "'b option list \<Rightarrow> 'b list" where
  "batches_of q = List.map_filter id q"

definition polled_batches :: "('a, 'k, 'd) poll list \<Rightarrow> ('a, 'k, 'd) Batch list" where
  "polled_batches ts = List.map_filter polled ts"


text \<open>
  A small augmentation capability for concrete runs: images and keypoint lists are lists
  of numbers, an image augmentation reverses the list and a keypoint augmentation negates
  its entries; the external state counts the calls. Augmenters are numbered; number 7
  raises \<^verbatim>\<open>QueueEmpty\<close> and number 13 raises some other exception when applied;
  the deterministic copy of augmenter \<open>a\<close> is \<open>a + 100\<close>.
\<close>

definition toy_api :: "(nat, nat list, int list, nat) augmenter_api" where
  "toy_api =
     \<lparr>augment_images = (\<lambda>a im x.
         if a mod 100 = 7 then (Inl QueueEmpty, Suc x)
         else if a mod 100 = 13 then (Inl (OtherException ''boom''), Suc x)
         else (Inr (map_option rev im), Suc x)),
      augment_keypoints = (\<lambda>a kp x.
         if a mod 100 = 7 then (Inl QueueEmpty, Suc x)
         else if a mod 100 = 13 then (Inl (OtherException ''boom''), Suc x)
         else (Inr (map_option (map uminus) kp), Suc x)),
      to_deterministic = (\<lambda>a x. (Inr (a + 100), Suc x)),
      deterministic = (\<lambda>a x. 100 \<le> a),
      reseed = (\<lambda>a s x. (Inr (), x)),
      truthy = (\<lambda>a x. True)\<rparr>"

definition toy_self :: "nat \<Rightarrow> nat BackgroundAugmenter" where
  "toy_self a =
     \<lparr>augseq = a, augseq_X = None, augseq_gt = None, nb_workers = 2,
      nb_workers_finished = 0, self_augment_images = True, self_augment_images_gt = True,
      self_augment_keypoints = True, worker_seeds = [5, 6]\<rparr>"

section \<open>BatchLoader\<close>

text \<open>
  A worker of a \<^verbatim>\<open>BatchLoader\<close> as line 3644 or 3646 creates it: a thread or a process,
  and the last argument of its target \<^verbatim>\<open>_load_batches\<close>, the seed.
\<close>

record worker =
  in_thread :: bool
  seedval :: "int option"

text \<open>
  The attributes of a \<^verbatim>\<open>BatchLoader\<close>: the payloads waiting in \<^verbatim>\<open>self.queue\<close>, its
  capacity, whether \<^verbatim>\<open>close()\<close> was called on it, the event \<^verbatim>\<open>join_signal\<close>, the events
  \<^verbatim>\<open>finished_signals\<close> (one per worker, in the workers' order), the workers, and the mode.
\<close>

record 'b BatchLoader =
  queue :: "'b list"
  queue_maxsize :: int
  queue_closed :: bool
  join_signal :: bool
  finished_signals :: "bool list"
  workers :: "worker list"
  threaded :: bool

text \<open>The loop of lines 3640-3649 over the worker indices.\<close>

fun start_workers ::
  "bool \<Rightarrow> int list \<Rightarrow> nat list \<Rightarrow> bool list \<times> worker list \<Rightarrow> bool list \<times> worker list" where
  "start_workers thr seeds [] acc = acc"
| "start_workers thr seeds (i # idxs) acc =
     start_workers thr seeds idxs
       (fst acc @ [False],
        snd acc @ [if thr then \<lparr>in_thread = True, seedval = None\<rparr>
                   else \<lparr>in_thread = False, seedval = Some (seeds ! i)\<rparr>])"

text \<open>
  \<^verbatim>\<open>BatchLoader.__init__\<close>, lines 3631-3649. The function \<^verbatim>\<open>load_batch_func\<close> is only
  handed on to the workers; what it yields is an argument of \<open>load_batches\<close> below.
\<close>

definition BatchLoader_init ::
  "'v rng \<Rightarrow> int \<Rightarrow> int \<Rightarrow> bool \<Rightarrow> 'v world \<Rightarrow> (exn + 'b BatchLoader) \<times> 'v world" where
  "BatchLoader_init g queue_size nb_workers_arg threaded_arg w =
     (case do_assert (queue_size > 0) ''Assertion failed.'' of
        Inl e \<Rightarrow> (Inl e, w)
      | Inr _ \<Rightarrow>
          (case do_assert (nb_workers_arg \<ge> 1) ''Assertion failed.'' of
             Inl e \<Rightarrow> (Inl e, w)
           | Inr _ \<Rightarrow>
               (let (seeds, w1) = rs_randint g current_random_state (nat nb_workers_arg) w;
                    started = start_workers threaded_arg seeds [0..<nat nb_workers_arg] ([], [])
                in (Inr \<lparr>queue = [], queue_maxsize = queue_size, queue_closed = False,
                         join_signal = False, finished_signals = fst started,
                         workers = snd started, threaded = threaded_arg\<rparr>, w1))))"

text \<open>\<^verbatim>\<open>all_finished\<close>, lines 3651-3661.\<close>

definition all_finished :: "'b BatchLoader \<Rightarrow> bool" where
  "all_finished self = list_all (\<lambda>is_set. is_set) (finished_signals self)"

text \<open>The reseeding at the start of \<^verbatim>\<open>_load_batches\<close>, lines 3664-3667.\<close>

definition load_batches_reseed :: "'v rng \<Rightarrow> int option \<Rightarrow> 'v world \<Rightarrow> 'v world" where
  "load_batches_reseed g seed_arg w =
     (case seed_arg of
        None \<Rightarrow> w
      | Some s \<Rightarrow>
          seed g s (w\<lparr>py_random := py_seed_vector g s, np_random := seed_vector g s\<rparr>))"

text \<open>
  What \<^verbatim>\<open>load_batch_func()\<close> gives a worker: the objects that it yields, each a
  \<^verbatim>\<open>Batch\<close> that can be pickled, an object that is no \<^verbatim>\<open>Batch\<close>, or a \<^verbatim>\<open>Batch\<close> whose
  pickling raises; and how the iteration ends, by exhaustion or by an exception.
\<close>

datatype 'b yielded = IsBatch 'b | NotBatch | Unpicklable exn

datatype gen_end = Exhausted | GenRaises exn

text \<open>
  What the worker observes of the other threads and processes, one record for each time
  it looks: whether \<^verbatim>\<open>join_signal.is_set()\<close> holds, and, for an attempt of
  \<^verbatim>\<open>queue.put(batch_pickled, timeout=0.001)\<close>, the exception that it raises (\<open>None\<close>: the
  payload is queued; \<^verbatim>\<open>QueueFull\<close>: the queue stayed full for the timeout).
\<close>

record tick =
  join_is_set :: bool
  put_raises :: "exn option"

text \<open>
  What a worker does that others can see: it queues a payload, it prints a traceback,
  it sets its own finished flag.
\<close>

datatype 'b event = Put 'b | PrintExc exn | SetFinished

text \<open>The retry loop of lines 3673-3678.\<close>

datatype put_exit = Delivered | NotDelivered | PutRaised exn | PutSpinning

fun put_retry :: "tick list \<Rightarrow> put_exit \<times> tick list" where
  "put_retry [] = (PutSpinning, [])"
| "put_retry (t # ts) =
     (if join_is_set t then (NotDelivered, ts)
      else (case put_raises t of
              None \<Rightarrow> (Delivered, ts)
            | Some e \<Rightarrow> if e = QueueFull then put_retry ts else (PutRaised e, ts)))"

text \<open>
  The \<^verbatim>\<open>for\<close> loop of lines 3670-3680: the payloads queued, and how the loop is left
  (normally, which includes \<^verbatim>\<open>break\<close>; by an exception; or not within the observations
  given).
\<close>

datatype loop_exit = LoopDone | LoopRaised exn | OutOfTicks

fun load_batches_loop ::
  "'b yielded list \<Rightarrow> gen_end \<Rightarrow> tick list \<Rightarrow> 'b event list \<times> loop_exit" where
  "load_batches_loop [] gend ts =
     ([], case gend of Exhausted \<Rightarrow> LoopDone | GenRaises e \<Rightarrow> LoopRaised e)"
| "load_batches_loop (y # ys) gend ts =
     (case y of
        NotBatch \<Rightarrow>
          ([], LoopRaised (AssertionError
                 ''Expected batch returned by lambda function to be of class imgaug.Batch''))
      | Unpicklable e \<Rightarrow> ([], LoopRaised e)
      | IsBatch batch \<Rightarrow>
          (case put_retry ts of
             (PutSpinning, ts1) \<Rightarrow> ([], OutOfTicks)
           | (PutRaised e, ts1) \<Rightarrow> ([], LoopRaised e)
           | (Delivered, ts1) \<Rightarrow>
               (case ts1 of
                  [] \<Rightarrow> ([Put batch], OutOfTicks)
                | t # ts2 \<Rightarrow>
                    if join_is_set t then ([Put batch], LoopDone)
                    else (case load_batches_loop ys gend ts2 of
                            (tr, ex) \<Rightarrow> (Put batch # tr, ex)))
           | (NotDelivered, ts1) \<Rightarrow>
               (case ts1 of
                  [] \<Rightarrow> ([], OutOfTicks)
                | t # ts2 \<Rightarrow>
                    if join_is_set t then ([], LoopDone)
                    else load_batches_loop ys gend ts2)))"

text \<open>
  \<^verbatim>\<open>_load_batches\<close>, lines 3663-3684: the reseeding, the loop, the clause
  \<^verbatim>\<open>except Exception\<close> with its traceback, and the clause \<^verbatim>\<open>finally\<close>. An exception that
  is no instance of \<^verbatim>\<open>Exception\<close> passes the \<^verbatim>\<open>except\<close> clause and leaves the function
  after the \<^verbatim>\<open>finally\<close> clause.
\<close>

definition load_batches ::
  "'v rng \<Rightarrow> int option \<Rightarrow> 'b yielded list \<Rightarrow> gen_end \<Rightarrow> tick list \<Rightarrow> 'v world
     \<Rightarrow> ('b event list \<times> worker_end) \<times> 'v world" where
  "load_batches g seed_arg ys gend ts w =
     (let w1 = load_batches_reseed g seed_arg w
      in case load_batches_loop ys gend ts of
           (tr, LoopDone) \<Rightarrow> ((tr @ [SetFinished], Returned), w1)
         | (tr, LoopRaised e) \<Rightarrow>
             if is_Exception e then ((tr @ [PrintExc e, SetFinished], Returned), w1)
             else ((tr @ [SetFinished], Raised e), w1)
         | (tr, OutOfTicks) \<Rightarrow> ((tr, Running), w1))"

text \<open>The loop of lines 3696-3700 on an open queue: it takes payloads until none is left.\<close>

fun drain :: "'b list \<Rightarrow> 'b list" where
  "drain [] = []"
| "drain (b # q) = drain q"

text \<open>
  The loop of lines 3703-3704. \<^verbatim>\<open>worker.join()\<close> has no timeout: it returns when the
  thread has left \<^verbatim>\<open>_load_batches\<close>, whose \<^verbatim>\<open>finally\<close> clause has then set the worker's
  finished flag, and never returns for a thread that never leaves it. \<open>will_exit i\<close> says
  whether worker \<open>i\<close>, with the stop flag set, ever leaves \<^verbatim>\<open>_load_batches\<close>; it does not
  when the generator neither yields nor ends any more. The result \<open>None\<close> stands for a
  call that never returns.
\<close>

fun join_threads :: "(nat \<Rightarrow> bool) \<Rightarrow> nat list \<Rightarrow> bool list \<Rightarrow> bool list option" where
  "join_threads will_exit [] fs = Some fs"
| "join_threads will_exit (i # idxs) fs =
     (if will_exit i then join_threads will_exit idxs (fs[i := True]) else None)"

text \<open>
  \<^verbatim>\<open>BatchLoader.terminate\<close>, lines 3686-3719. \<^verbatim>\<open>get\<close> on a queue that was closed raises
  (\<^verbatim>\<open>ValueError\<close> since Python 3.8, \<^verbatim>\<open>OSError\<close> before), which is not \<^verbatim>\<open>QueueEmpty\<close>
  and so leaves the method. A process that is terminated and joined is gone whatever it
  was doing.
\<close>

definition terminate ::
  "(nat \<Rightarrow> bool) \<Rightarrow> 'b BatchLoader \<Rightarrow> ((exn + unit) \<times> 'b BatchLoader) option" where
  "terminate will_exit self =
     (let s1 = self\<lparr>join_signal := True\<rparr>
      in if queue_closed s1 then Some (Inl (ValueError ''Queue is closed''), s1)
         else
           (let s2 = s1\<lparr>queue := drain (queue s1)\<rparr>
            in if threaded s2 then
                 (case join_threads will_exit [0..<length (workers s2)] (finished_signals s2) of
                    None \<Rightarrow> None
                  | Some fs \<Rightarrow> Some (Inr (), s2\<lparr>finished_signals := fs, queue_closed := True\<rparr>))
               else
                 Some (Inr (), s2\<lparr>finished_signals := map (\<lambda>_. True) (finished_signals s2),
                                  queue_closed := True\<rparr>)))"

text \<open>A thread-mode loader with two workers and three payloads waiting, for concrete runs.\<close>

definition toy_loader :: "nat BatchLoader" where
  "toy_loader =
     \<lparr>queue = [1, 2, 3], queue_maxsize = 50, queue_closed = False, join_signal = False,
      finished_signals = [True, False],
      workers = [\<lparr>in_thread = True, seedval = None\<rparr>, \<lparr>in_thread = True, seedval = None\<rparr>],
      threaded = True\<rparr>"

section \<open>From the generator to the caller\<close>

text \<open>The payloads that a loader worker has put on the queue, in order.\<close>

fun queued :: "'b event list \<Rightarrow> 'b list" where
  "queued [] = []"
| "queued (Put b # tr) = b # queued tr"
| "queued (PrintExc e # tr) = queued tr"
| "queued (SetFinished # tr) = queued tr"



text \<open>
  Two futures of the worker threads for concrete runs: every thread leaves its loop; the
  second thread (index 1) never does.
\<close>

definition every_worker_exits :: "nat \<Rightarrow> bool" where
  "every_worker_exits i = True"

definition second_worker_stuck :: "nat \<Rightarrow> bool" where
  "second_worker_stuck i = (i \<noteq> 1)"

text \<open>
  Two observations for concrete runs: the stop flag is not set and the payload is queued;
  the stop flag is not set and the queue stays full.
\<close>

definition tick_ok :: tick where
  "tick_ok = \<lparr>join_is_set = False, put_raises = None\<rparr>"

definition tick_full :: tick where
  "tick_full = \<lparr>join_is_set = False, put_raises = Some QueueFull\<rparr>"

text \<open>Batches for concrete runs: images only, all streams, ground truth only, keypoints only.\<close>

definition toy_batch :: "(nat list, int list, string) Batch" where
  "toy_batch = Batch_init (Some [1, 2]) None None None ''a''"

definition toy_batch_full :: "(nat list, int list, string) Batch" where
  "toy_batch_full = Batch_init (Some [1, 2]) (Some [3, 4]) (Some [5, 6]) (Some [7, 8]) ''b''"

definition toy_batch_gt :: "(nat list, int list, string) Batch" where
  "toy_batch_gt = Batch_init None (Some [3, 4]) None None ''c''"

definition toy_batch_kp :: "(nat list, int list, string) Batch" where
  "toy_batch_kp = Batch_init None None None (Some [7, 8]) ''d''"

section \<open>Properties of the random-state functions\<close>


lemma length_heap_set_state [simp]: "length (heap (set_state r v w)) = length (heap w)"
  by (simp add: set_state_def split: rs_ref.splits)

lemma rs_randint_one:
  "rs_randint g r (Suc 0) w =
     ([fst (draw g (get_state w r))], set_state r (snd (draw g (get_state w r))) w)"
  by (simp add: rs_randint_def split_def Let_def)

lemma length_randint [simp]: "length (fst (randint g k v)) = k"
  by (induction k arbitrary: v) (simp_all add: split_def Let_def)

lemma length_rs_randint [simp]: "length (fst (rs_randint g r k w)) = k"
  by (simp add: rs_randint_def split_def Let_def)

lemma new_random_state_Some:
  "seed_accepted s \<Longrightarrow>
     new_random_state g (Some s) b w =
       (Inr (RandomState (length (heap w))), w\<lparr>heap := heap w @ [seed_vector g s]\<rparr>)"
  by (simp add: new_random_state_def RandomState_init_def RandomState_accepted_def alloc_def)

lemma new_random_state_refused:
  "\<not> seed_accepted s \<Longrightarrow>
     new_random_state g (Some s) b w =
       (Inl (ValueError ''Seed must be between 0 and 2**32 - 1''), w)"
  by (simp add: new_random_state_def RandomState_init_def)

lemma new_random_states_eq:
  "new_random_states g ss w =
     (map RandomState [length (heap w)..<length (heap w) + length ss],
      w\<lparr>heap := heap w @ map (seed_vector g) ss\<rparr>)"
proof (induction ss arbitrary: w)
  case Nil
  show ?case by simp
next
  case (Cons s ss)
  have "[length (heap w)..<length (heap w) + length (s # ss)] =
        length (heap w) # [Suc (length (heap w))..<Suc (length (heap w)) + length ss]"
    by (subst upt_rec) simp
  then show ?case
    by (simp add: RandomState_accepted_def alloc_def Cons.IH)
qed

lemma derive_random_states_eq:
  "derive_random_states g r n w =
     (map RandomState [length (heap w)..<length (heap w) + nat n],
      (set_state r (snd (draw g (get_state w r))) w)
        \<lparr>heap := heap (set_state r (snd (draw g (get_state w r))) w)
           @ map (\<lambda>i. seed_vector g (fst (draw g (get_state w r)) + int i)) [0..<nat n]\<rparr>)"
  by (simp add: derive_random_states_def rs_randint_one new_random_states_eq comp_def)

lemma copy_random_state_eq:
  assumes "valid_ref w r"
  shows "copy_random_state g r force_copy w =
     (if r = NpRandom \<and> \<not> force_copy then (r, w)
      else (RandomState (length (heap w)), w\<lparr>heap := heap w @ [get_state w r]\<rparr>))"
  using assms
  by (cases r) (simp_all add: copy_random_state_def dummy_random_state_def alloc_def
      get_state_def set_state_def valid_ref_def nth_append)


lemma map_nth_append_upt:
  "length xs = l \<Longrightarrow> length ys = k \<Longrightarrow> map (\<lambda>i. (xs @ ys) ! i) [l..<l + k] = ys"
  by (rule nth_equalityI) (auto simp: nth_append)

lemma get_state_fresh_children:
  assumes "length (heap w) = l" and "length vs = k"
  shows "map (get_state (w\<lparr>heap := heap w @ vs\<rparr>)) (map RandomState [l..<l + k]) = vs"
  using map_nth_append_upt [OF assms] by (simp add: get_state_def comp_def)

lemma get_state_after_append:
  "valid_ref w r \<Longrightarrow> get_state (w\<lparr>heap := heap w @ vs\<rparr>) r = get_state w r"
  by (cases r) (simp_all add: get_state_def valid_ref_def nth_append)

lemma valid_ref_set_state [simp]: "valid_ref (set_state r v w) r' = valid_ref w r'"
  by (cases r; cases r') (simp_all add: valid_ref_def set_state_def)

lemma get_state_set_state_same:
  "valid_ref w r \<Longrightarrow> get_state (set_state r v w) r = v"
  by (cases r) (simp_all add: get_state_def set_state_def valid_ref_def)

lemma get_state_set_state_other:
  "r' \<noteq> r \<Longrightarrow> get_state (set_state r v w) r' = get_state w r'"
  by (cases r; cases r') (simp_all add: get_state_def set_state_def)

lemma derive_random_states_children:
  assumes "derive_random_states g r n w = (children, w')"
  shows "children = map RandomState [length (heap w)..<length (heap w) + nat n]"
    and "map (get_state w') children = child_vectors g (get_state w r) n"
    and "valid_ref w r \<Longrightarrow> get_state w' r = snd (draw g (get_state w r))"
    and "valid_ref w r' \<Longrightarrow> r' \<noteq> r \<Longrightarrow> get_state w' r' = get_state w r'"
    and "length (heap w') = length (heap w) + nat n"
    and "length children = nat n"
proof -
  let ?w1 = "set_state r (snd (draw g (get_state w r))) w"
  let ?vs = "map (\<lambda>i. seed_vector g (fst (draw g (get_state w r)) + int i)) [0..<nat n]"
  from assms have c: "children = map RandomState [length (heap w)..<length (heap w) + nat n]"
    and w': "w' = ?w1\<lparr>heap := heap ?w1 @ ?vs\<rparr>"
    by (simp_all add: derive_random_states_eq)
  show "children = map RandomState [length (heap w)..<length (heap w) + nat n]" by (rule c)
  have "map (get_state (?w1\<lparr>heap := heap ?w1 @ ?vs\<rparr>))
          (map RandomState [length (heap w)..<length (heap w) + nat n]) = ?vs"
    by (rule get_state_fresh_children) simp_all
  then show "map (get_state w') children = child_vectors g (get_state w r) n"
    by (simp only: c w' child_vectors_def)
  show "get_state w' r = snd (draw g (get_state w r))" if "valid_ref w r"
    using that by (simp add: w' get_state_after_append get_state_set_state_same)
  show "get_state w' r' = get_state w r'" if "valid_ref w r'" "r' \<noteq> r"
    using that by (simp add: w' get_state_after_append get_state_set_state_other)
  show "length (heap w') = length (heap w) + nat n" by (simp add: w')
  show "length children = nat n" by (simp add: c)
qed


text \<open>
  C1. \<^verbatim>\<open>derive_random_states(state, n)\<close> draws exactly one integer \<open>s\<close> from \<open>state\<close>
  (afterwards the state holds the vector reached by one draw) and returns \<open>n\<close> new
  random-state objects, none of which existed before, whose vectors are those of the seeds
  \<open>s, s+1, ..., s+n-1\<close>. Consequently, deriving from two clones of one state made by
  \<^verbatim>\<open>copy_random_state(state, force_copy=True)\<close> gives two lists of \<open>n\<close> children with
  the same state vectors, position by position.
\<close>

theorem derive_random_states_spec:
  assumes "valid_ref w r"
  shows
    "(case derive_random_states g r n w of (children, w') \<Rightarrow>
        length children = nat n \<and> distinct children \<and>
        (\<forall>c\<in>set children. \<not> valid_ref w c \<and> valid_ref w' c) \<and>
        map (get_state w') children = child_vectors g (get_state w r) n \<and>
        get_state w' r = snd (draw g (get_state w r))) \<and>
     (case copy_random_state g r True w of (c1, w1) \<Rightarrow>
      case copy_random_state g r True w1 of (c2, w2) \<Rightarrow>
      case derive_random_states g c1 n w2 of (ch1, w3) \<Rightarrow>
      case derive_random_states g c2 n w3 of (ch2, w4) \<Rightarrow>
        c1 \<noteq> c2 \<and> length ch1 = nat n \<and> length ch2 = nat n \<and>
        map (get_state w4) ch1 = map (get_state w4) ch2 \<and>
        map (get_state w4) ch1 = child_vectors g (get_state w r) n)"
proof -
  obtain children w' where d: "derive_random_states g r n w = (children, w')"
    by (cases "derive_random_states g r n w")
  note ch = derive_random_states_children [OF d]
  have part1: "length children = nat n \<and> distinct children \<and>
        (\<forall>c\<in>set children. \<not> valid_ref w c \<and> valid_ref w' c) \<and>
        map (get_state w') children = child_vectors g (get_state w r) n \<and>
        get_state w' r = snd (draw g (get_state w r))"
    using ch(2) ch(3) [OF assms] ch(5)
    by (auto simp: ch(1) valid_ref_def distinct_map inj_on_def)
  define l where "l = length (heap w)"
  define v where "v = get_state w r"
  let ?w1 = "w\<lparr>heap := heap w @ [v]\<rparr>"
  let ?w2 = "?w1\<lparr>heap := heap ?w1 @ [v]\<rparr>"
  have valid1: "valid_ref ?w1 r"
    using assms by (cases r) (simp_all add: valid_ref_def)
  have v1: "get_state ?w1 r = v"
    using assms by (simp add: get_state_after_append v_def)
  have c1: "copy_random_state g r True w = (RandomState l, ?w1)"
    using copy_random_state_eq [OF assms, of g True] by (simp add: l_def v_def)
  have c2: "copy_random_state g r True ?w1 = (RandomState (Suc l), ?w2)"
    using copy_random_state_eq [OF valid1, of g True] by (simp add: l_def v1)
  have g1: "get_state ?w2 (RandomState l) = v"
    and g2: "get_state ?w2 (RandomState (Suc l)) = v"
    by (simp_all add: get_state_def nth_append l_def)
  have valid2: "valid_ref ?w2 (RandomState (Suc l))"
    by (simp add: valid_ref_def l_def)
  obtain ch1 w3 where d1: "derive_random_states g (RandomState l) n ?w2 = (ch1, w3)"
    by (cases "derive_random_states g (RandomState l) n ?w2")
  note k1 = derive_random_states_children [OF d1]
  obtain ch2 w4 where d2: "derive_random_states g (RandomState (Suc l)) n w3 = (ch2, w4)"
    by (cases "derive_random_states g (RandomState (Suc l)) n w3")
  note k2 = derive_random_states_children [OF d2]
  have s1: "map (get_state w3) ch1 = child_vectors g v n"
    using k1(2) g1 by simp
  have "get_state w3 (RandomState (Suc l)) = v"
    using k1(4) [OF valid2] g2 by simp
  then have s2: "map (get_state w4) ch2 = child_vectors g v n"
    using k2(2) by simp
  have "get_state w4 c = get_state w3 c" if "c \<in> set ch1" for c
  proof (rule k2(4))
    from that show "valid_ref w3 c"
      by (auto simp: k1(1) k1(5) valid_ref_def)
    from that show "c \<noteq> RandomState (Suc l)"
      by (auto simp: k1(1) l_def)
  qed
  then have s3: "map (get_state w4) ch1 = map (get_state w3) ch1"
    by simp
  have len1: "length ch1 = nat n" and len2: "length ch2 = nat n"
    by (rule k1(6), rule k2(6))
  have part2: "RandomState l \<noteq> RandomState (Suc l) \<and> length ch1 = nat n \<and> length ch2 = nat n \<and>
        map (get_state w4) ch1 = map (get_state w4) ch2 \<and>
        map (get_state w4) ch1 = child_vectors g v n"
    using s1 s2 s3 by (simp add: len1 len2)
  show ?thesis
    unfolding d c1 c2 d1 d2 prod.case
    using part1 part2 [unfolded v_def] by blast
qed

theorem derive_random_states_spec_witness:
  "valid_ref lcg_world CURRENT_RANDOM_STATE \<and>
   derive_random_states lcg CURRENT_RANDOM_STATE 3 lcg_world =
     ([RandomState 1, RandomState 2, RandomState 3],
      lcg_world\<lparr>heap := [1250496027, 652635, 652636, 652637]\<rparr>) \<and>
   child_vectors lcg (get_state lcg_world CURRENT_RANDOM_STATE) 3 = [652635, 652636, 652637] \<and>
   (case copy_random_state lcg CURRENT_RANDOM_STATE True lcg_world of (c1, w1) \<Rightarrow>
    case copy_random_state lcg CURRENT_RANDOM_STATE True w1 of (c2, w2) \<Rightarrow>
    case derive_random_states lcg c1 3 w2 of (ch1, w3) \<Rightarrow>
    case derive_random_states lcg c2 3 w3 of (ch2, w4) \<Rightarrow>
      map (get_state w4) ch1 = map (get_state w4) ch2)"
proof -
  have v: "valid_ref lcg_world CURRENT_RANDOM_STATE"
    by (simp add: valid_ref_def lcg_world_def initial_world_def CURRENT_RANDOM_STATE_def)
  have e: "derive_random_states lcg CURRENT_RANDOM_STATE 3 lcg_world =
     ([RandomState 1, RandomState 2, RandomState 3],
      lcg_world\<lparr>heap := [1250496027, 652635, 652636, 652637]\<rparr>)"
    by (simp add: derive_random_states_def rs_randint_def RandomState_accepted_def alloc_def
        get_state_def set_state_def lcg_world_def initial_world_def CURRENT_RANDOM_STATE_def
        lcg_def Let_def numeral_3_eq_3 upt_rec)
  have c: "child_vectors lcg (get_state lcg_world CURRENT_RANDOM_STATE) 3 = [652635, 652636, 652637]"
    by (simp add: child_vectors_def get_state_def lcg_world_def initial_world_def
        CURRENT_RANDOM_STATE_def lcg_def numeral_3_eq_3 upt_rec)
  show ?thesis
    using derive_random_states_spec [OF v, where g = lcg and n = 3] v e c
    by (simp add: split_def)
qed

text \<open>
  C9, as amended. For every integer seed \<open>s\<close> that numpy accepts, \<open>0 \<le> s \<le> 2^32 - 1\<close>, and
  either value of \<^verbatim>\<open>fully_random\<close>, \<^verbatim>\<open>new_random_state(s, fully_random)\<close> returns a new
  random state built directly from \<open>s\<close>: the new state's vector is the one of seed \<open>s\<close>,
  and any number of draws from the states made with the two values of the flag agree,
  whatever the worlds they were made in. For every integer seed, accepted or not, the two
  values of the flag give the same result; a seed that numpy refuses makes both calls
  raise the same \<^verbatim>\<open>ValueError\<close>. The flag does matter when the seed is omitted (last
  conjunct, on a concrete generator).
\<close>

theorem new_random_state_seed_given:
  "new_random_state g (Some s) True w = new_random_state g (Some s) False w \<and>
   (0 \<le> s \<and> s \<le> 2 ^ 32 - 1 \<longrightarrow>
      new_random_state g (Some s) b w =
        (Inr (RandomState (length (heap w))), w\<lparr>heap := heap w @ [seed_vector g s]\<rparr>) \<and>
      (case new_random_state g (Some s) True w of
         (Inl e1, w1) \<Rightarrow> False
       | (Inr r1, w1) \<Rightarrow>
           (case new_random_state g (Some s) False w' of
              (Inl e2, w2) \<Rightarrow> False
            | (Inr r2, w2) \<Rightarrow>
                get_state w1 r1 = seed_vector g s \<and> get_state w2 r2 = seed_vector g s \<and>
                fst (rs_randint g r1 k w1) = fst (rs_randint g r2 k w2)))) \<and>
   (\<not> (0 \<le> s \<and> s \<le> 2 ^ 32 - 1) \<longrightarrow>
      new_random_state g (Some s) b w =
        (Inl (ValueError ''Seed must be between 0 and 2**32 - 1''), w)) \<and>
   new_random_state lcg None True lcg_world \<noteq> new_random_state lcg None False lcg_world"
proof -
  have flag: "new_random_state g (Some s) True w = new_random_state g (Some s) False w"
    by (simp add: new_random_state_def)
  have omitted: "new_random_state lcg None True lcg_world \<noteq> new_random_state lcg None False lcg_world"
    by (simp add: new_random_state_def RandomState_init_def RandomState_accepted_def
        seed_accepted_def rs_randint_def alloc_def get_state_def set_state_def
        lcg_world_def initial_world_def CURRENT_RANDOM_STATE_def lcg_def Let_def)
  have acc: "seed_accepted s = (0 \<le> s \<and> s \<le> 2 ^ 32 - 1)"
    by (simp add: seed_accepted_def)
  show ?thesis
  proof (cases "seed_accepted s")
    case True
    with flag omitted acc show ?thesis
      by (simp add: new_random_state_Some rs_randint_def get_state_def split_def Let_def)
  next
    case False
    with flag omitted acc show ?thesis
      by (simp add: new_random_state_refused)
  qed
qed

theorem new_random_state_seed_given_witness:
  "(0::int) \<le> 5 \<and> (5::int) \<le> 2 ^ 32 - 1 \<and>
   new_random_state lcg (Some 5) True lcg_world =
     (Inr (RandomState 1), lcg_world\<lparr>heap := [42, 5]\<rparr>) \<and>
   new_random_state lcg (Some 5) False lcg_world =
     (Inr (RandomState 1), lcg_world\<lparr>heap := [42, 5]\<rparr>)"
proof -
  have r: "(0::int) \<le> 5 \<and> (5::int) \<le> 2 ^ 32 - 1" by simp
  have h: "heap lcg_world = [42]"
    by (simp add: lcg_world_def initial_world_def lcg_def)
  have v: "seed_vector lcg 5 = 5" by (simp add: lcg_def)
  note t = new_random_state_seed_given [where g = lcg and s = 5 and w = lcg_world
      and w' = lcg_world and k = 0]
  have a: "new_random_state lcg (Some 5) True lcg_world =
     (Inr (RandomState 1), lcg_world\<lparr>heap := [42, 5]\<rparr>)"
    using conjunct1 [OF mp [OF conjunct1 [OF conjunct2 [OF t [where b = True]]] r]]
    by (simp add: h v)
  have b: "new_random_state lcg (Some 5) False lcg_world =
     (Inr (RandomState 1), lcg_world\<lparr>heap := [42, 5]\<rparr>)"
    using conjunct1 [OF mp [OF conjunct1 [OF conjunct2 [OF t [where b = False]]] r]]
    by (simp add: h v)
  show ?thesis
    using r a b by simp
qed

text \<open>
  A seed that numpy refuses, here \<open>-1\<close>: no random state is returned, the call raises.
\<close>

theorem new_random_state_negative_seed_counterexample:
  "new_random_state lcg (Some (- 1)) False lcg_world =
     (Inl (ValueError ''Seed must be between 0 and 2**32 - 1''), lcg_world)"
  by (simp add: new_random_state_def RandomState_init_def seed_accepted_def)

text \<open>
  C4, as amended. \<^verbatim>\<open>copy_random_state(state, force_copy=False)\<close> returns the very same
  reference, and changes nothing, exactly when \<open>state\<close> is numpy's module \<^verbatim>\<open>np.random\<close>
  (the comparison at line 322 is against \<^verbatim>\<open>np.random\<close>). For every \<^verbatim>\<open>RandomState\<close>
  object, the library's own root stream \<^verbatim>\<open>CURRENT_RANDOM_STATE\<close> included, and for
  \<^verbatim>\<open>np.random\<close> under \<^verbatim>\<open>force_copy=True\<close>, it returns a new object with the same
  state vector as the original, and the two are independent: writing the state of one
  leaves the state of the other as it was.
\<close>

theorem copy_random_state_spec:
  assumes "valid_ref w r"
  shows
    "(r = NpRandom \<and> \<not> force_copy \<longrightarrow> copy_random_state g r force_copy w = (r, w)) \<and>
     (r \<noteq> NpRandom \<or> force_copy \<longrightarrow>
        (case copy_random_state g r force_copy w of (rs_copy, w') \<Rightarrow>
           rs_copy \<noteq> r \<and> \<not> valid_ref w rs_copy \<and> valid_ref w' rs_copy \<and>
           get_state w' rs_copy = get_state w r \<and>
           (\<forall>r'. valid_ref w r' \<longrightarrow> get_state w' r' = get_state w r') \<and>
           (\<forall>v. get_state (set_state rs_copy v w') r = get_state w r) \<and>
           (\<forall>v. get_state (set_state r v w') rs_copy = get_state w r)))"
proof -
  let ?c = "RandomState (length (heap w))"
  let ?w' = "w\<lparr>heap := heap w @ [get_state w r]\<rparr>"
  have fresh: "?c \<noteq> r" "\<not> valid_ref w ?c" "valid_ref ?w' ?c"
    using assms by (auto simp: valid_ref_def)
  have st: "get_state ?w' ?c = get_state w r"
    by (simp add: get_state_def)
  have old: "get_state ?w' r' = get_state w r'" if "valid_ref w r'" for r'
    using that by (rule get_state_after_append)
  have m1: "get_state (set_state ?c v ?w') r = get_state w r" for v
    using fresh(1) old [OF assms] by (simp add: get_state_set_state_other)
  have m2: "get_state (set_state r v ?w') ?c = get_state w r" for v
    using fresh(1) st by (simp add: get_state_set_state_other)
  have same: "copy_random_state g NpRandom False w = (NpRandom, w)"
    by (simp add: copy_random_state_def)
  show ?thesis
    using fresh st old m1 m2 same by (simp add: copy_random_state_eq [OF assms])
qed

theorem copy_random_state_spec_witness:
  "valid_ref lcg_world current_random_state \<and>
   copy_random_state lcg NpRandom False lcg_world = (NpRandom, lcg_world) \<and>
   copy_random_state lcg current_random_state False lcg_world =
     (RandomState 1, lcg_world\<lparr>heap := [42, 42]\<rparr>) \<and>
   fst (copy_random_state lcg NpRandom True lcg_world) \<noteq> NpRandom \<and>
   (case copy_random_state lcg current_random_state False lcg_world of (rs_copy, w') \<Rightarrow>
      rs_copy \<noteq> current_random_state \<and>
      get_state w' rs_copy = get_state lcg_world current_random_state)"
proof -
  have v: "valid_ref lcg_world current_random_state"
    by (simp add: valid_ref_def lcg_world_def initial_world_def current_random_state_def
        CURRENT_RANDOM_STATE_def)
  have n: "valid_ref lcg_world NpRandom"
    by (simp add: valid_ref_def)
  have e: "copy_random_state lcg current_random_state False lcg_world =
     (RandomState 1, lcg_world\<lparr>heap := [42, 42]\<rparr>)"
    by (simp add: copy_random_state_def dummy_random_state_def alloc_def get_state_def
        set_state_def current_random_state_def CURRENT_RANDOM_STATE_def lcg_world_def
        initial_world_def lcg_def Let_def)
  have c: "current_random_state \<noteq> NpRandom"
    by (simp add: current_random_state_def CURRENT_RANDOM_STATE_def)
  show ?thesis
    using copy_random_state_spec [OF v, where force_copy = False and g = lcg]
      copy_random_state_spec [OF n, where force_copy = False and g = lcg]
      copy_random_state_spec [OF n, where force_copy = True and g = lcg] v e c
    by (auto simp: split_def)
qed


text \<open>
  The statement that the shared root stream is returned uncopied fails: with \<^verbatim>\<open>force_copy=False\<close> the
  reference returned for \<^verbatim>\<open>current_random_state()\<close> is not the root stream's.
\<close>

theorem copy_random_state_root_counterexample:
  "fst (copy_random_state lcg current_random_state False lcg_world) \<noteq> current_random_state"
  by (simp add: copy_random_state_def dummy_random_state_def alloc_def current_random_state_def
      CURRENT_RANDOM_STATE_def lcg_world_def initial_world_def Let_def)

section \<open>Properties of the background augmenter\<close>

text \<open>What the constructor establishes, and the worker function as a whole.\<close>

lemma BackgroundAugmenter_init_ok:
  "BackgroundAugmenter_init g cpu_count a a_X a_gt queue_size nb_arg w = (Inr self, w') \<Longrightarrow>
     augseq self = a \<and> augseq_X self = a_X \<and> augseq_gt self = a_gt \<and>
     self_augment_images self \<and> self_augment_images_gt self \<and> self_augment_keypoints self \<and>
     nb_workers_finished self = 0 \<and> 1 \<le> nb_workers self \<and>
     length (worker_seeds self) = nat (nb_workers self) \<and>
     w' = snd (rs_randint g current_random_state (nat (nb_workers self)) w)"
  by (auto simp: BackgroundAugmenter_init_def do_assert_def split_def Let_def
      split: option.splits if_splits)

lemma augment_images_worker_after_reseed:
  "augment_images_worker_reseed g api self seed_arg s = (Inr u, s1) \<Longrightarrow>
     fst (augment_images_worker g api self seed_arg ts s) =
       fst (augment_images_worker_loop api self ts (snd s1))"
  by (simp add: augment_images_worker_def split_def)

lemma augment_images_worker_reseed_fails:
  "augment_images_worker_reseed g api self seed_arg s = (Inl e, s1) \<Longrightarrow>
     augment_images_worker g api self seed_arg ts s = (([], Raised e), s1)"
  by (simp add: augment_images_worker_def)

lemma batches_of_simps [simp]:
  "batches_of [] = []"
  "batches_of (Some b # q) = b # batches_of q"
  "batches_of (None # q) = batches_of q"
  by (simp_all add: batches_of_def List.map_filter_simps)

lemma batches_of_append [simp]: "batches_of (q @ q') = batches_of q @ batches_of q'"
  by (simp add: batches_of_def List.map_filter_def)

lemma batches_of_map_Some [simp]: "batches_of (map Some bs) = bs"
  by (induction bs) simp_all





lemma worker_returned_output:
  "snd (fst (augment_images_worker_loop api self ts x)) = Returned \<Longrightarrow>
     \<exists>bs. fst (fst (augment_images_worker_loop api self ts x)) = map Some bs @ [None]"
proof (induction ts arbitrary: x)
  case Nil
  then show ?case by simp
next
  case (Cons t ts)
  show ?case
  proof (cases "case polled t of None \<Rightarrow> (Inl QueueEmpty, x) | Some batch \<Rightarrow> augment_batch api self batch x")
    case (Pair r x1)
    show ?thesis
    proof (cases r)
      case (Inr b1)
      with Pair Cons.prems have "snd (fst (augment_images_worker_loop api self ts x1)) = Returned"
        by (simp add: split_def)
      from Cons.IH [OF this] obtain bs where
        "fst (fst (augment_images_worker_loop api self ts x1)) = map Some bs @ [None]" ..
      with Pair Inr have "fst (fst (augment_images_worker_loop api self (t # ts) x)) = map Some (b1 # bs) @ [None]"
        by (simp add: split_def)
      then show ?thesis by blast
    next
      case (Inl exc)
      show ?thesis
      proof (cases "exc = QueueEmpty \<and> \<not> source_finished t")
        case True
        with Pair Inl Cons.prems have "snd (fst (augment_images_worker_loop api self ts x1)) = Returned"
          by simp
        from Cons.IH [OF this] Pair Inl True show ?thesis by simp
      next
        case False
        with Pair Inl Cons.prems have "fst (fst (augment_images_worker_loop api self (t # ts) x)) = map Some [] @ [None]"
          by (auto split: if_splits)
        then show ?thesis by blast
      qed
    qed
  qed
qed




lemma augment_batch_pre_fields:
  "augment_batch api self b x = (Inr b', x') \<Longrightarrow> pre_fields b' = pre_fields b"
  by (auto simp: augment_batch_def ext_bind_def ext_return_def if_augmenter_def det_instance_def
      pre_fields_def Let_def split: if_splits sum.splits prod.splits option.splits)

lemma polled_batches_simps [simp]:
  "polled_batches [] = []"
  "polled t = Some b \<Longrightarrow> polled_batches (t # ts) = b # polled_batches ts"
  "polled t = None \<Longrightarrow> polled_batches (t # ts) = polled_batches ts"
  by (simp_all add: polled_batches_def)

lemma worker_loop_pre_fields:
  "subseq (map pre_fields (batches_of (fst (fst (augment_images_worker_loop api self ts x)))))
     (map pre_fields (polled_batches ts))"
proof (induction ts arbitrary: x)
  case Nil
  show ?case by simp
next
  case (Cons t ts)
  show ?case
  proof (cases "polled t")
    case None
    with Cons.IH [of x] show ?thesis by simp
  next
    case (Some b)
    obtain r x1 where a: "augment_batch api self b x = (r, x1)"
      by (cases "augment_batch api self b x")
    show ?thesis
    proof (cases r)
      case (Inr b1)
      with a have "pre_fields b1 = pre_fields b"
        by (simp add: augment_batch_pre_fields)
      with Cons.IH [of x1] Some a Inr show ?thesis
        by (simp add: split_def)
    next
      case (Inl exc)
      with Cons.IH [of x1] Some a show ?thesis
        by (simp add: list_emb_Cons)
    qed
  qed
qed

text \<open>
  C7. The augmentation of a batch by a worker leaves \<^verbatim>\<open>images\<close>, \<^verbatim>\<open>images_gt\<close>,
  \<^verbatim>\<open>mask_gt\<close>, \<^verbatim>\<open>keypoints\<close> and \<^verbatim>\<open>data\<close> as they were: only the four fields
  \<^verbatim>\<open>*_aug\<close> are assigned. So the batches that a worker pushes carry, in order, the
  pre-augmentation fields of batches that it polled.
\<close>

theorem worker_keeps_pre_augmentation_fields:
  "(augment_batch api self b x = (Inr b', x') \<longrightarrow>
      images b' = images b \<and> images_gt b' = images_gt b \<and> mask_gt b' = mask_gt b \<and>
      keypoints b' = keypoints b \<and> data b' = data b) \<and>
   subseq (map pre_fields (batches_of (fst (fst (augment_images_worker_loop api self ts x)))))
     (map pre_fields (polled_batches ts))"
  using augment_batch_pre_fields [of api self b x b' x'] worker_loop_pre_fields [of api self ts x]
  by (simp add: pre_fields_def)


lemmas toy_defs = augment_batch_def toy_api_def toy_self_def toy_batch_def toy_batch_full_def
  toy_batch_gt_def toy_batch_kp_def Batch_init_def ext_bind_def ext_return_def if_augmenter_def
  det_instance_def


theorem worker_keeps_pre_augmentation_fields_witness:
  "augment_batch toy_api (toy_self 1) toy_batch_full 0 =
     (Inr (toy_batch_full\<lparr>images_aug := Some [2, 1], keypoints_aug := Some [-7, -8]\<rparr>), 3) \<and>
   images (toy_batch_full\<lparr>images_aug := Some [2, 1], keypoints_aug := Some [-7, -8]\<rparr>) =
     images toy_batch_full \<and>
   keypoints (toy_batch_full\<lparr>images_aug := Some [2, 1], keypoints_aug := Some [-7, -8]\<rparr>) =
     keypoints toy_batch_full"
proof -
  have e: "augment_batch toy_api (toy_self 1) toy_batch_full 0 =
     (Inr (toy_batch_full\<lparr>images_aug := Some [2, 1], keypoints_aug := Some [-7, -8]\<rparr>), 3)"
    by (simp add: toy_defs numeral_3_eq_3)
  from worker_keeps_pre_augmentation_fields [of toy_api "toy_self 1" toy_batch_full 0
      "toy_batch_full\<lparr>images_aug := Some [2, 1], keypoints_aug := Some [-7, -8]\<rparr>" 3 "[]"] e
  show ?thesis by simp
qed

text \<open>
  C3, as amended. With the three flags set as the constructor sets them: for a batch in
  which only the images are present the worker applies the shared pipeline \<^verbatim>\<open>augseq\<close> to
  the images alone and stores the result in \<^verbatim>\<open>images_aug\<close>; for a batch in which only the
  keypoints are present it applies \<^verbatim>\<open>augseq\<close> to the keypoints alone and stores the result
  in \<^verbatim>\<open>keypoints_aug\<close>; a batch in which only the ground-truth images are present meets
  no branch of lines 3834-3855 and is passed on as it came. The batch that the
  augmentation returns is the one pushed to the result queue.
\<close>

theorem single_stream_augmentation:
  assumes "self_augment_images self" and "self_augment_images_gt self"
    and "self_augment_keypoints self"
  shows
    "(images b \<noteq> None \<and> keypoints b = None \<and> images_gt b = None \<longrightarrow>
        augment_batch api self b x =
          (case augment_images api (augseq self) (images b) x of
             (Inl e, x1) \<Rightarrow> (Inl e, x1)
           | (Inr r, x1) \<Rightarrow> (Inr (b\<lparr>images_aug := r\<rparr>), x1))) \<and>
     (keypoints b \<noteq> None \<and> images b = None \<and> images_gt b = None \<longrightarrow>
        augment_batch api self b x =
          (case augment_keypoints api (augseq self) (keypoints b) x of
             (Inl e, x1) \<Rightarrow> (Inl e, x1)
           | (Inr r, x1) \<Rightarrow> (Inr (b\<lparr>keypoints_aug := r\<rparr>), x1))) \<and>
     (images_gt b \<noteq> None \<and> images b = None \<and> keypoints b = None \<longrightarrow>
        augment_batch api self b x = (Inr b, x)) \<and>
     (polled t = Some b \<and> augment_batch api self b x = (Inr b1, x1) \<longrightarrow>
        fst (fst (augment_images_worker_loop api self (t # ts) x)) =
          Some b1 # fst (fst (augment_images_worker_loop api self ts x1)))"
  using assms
  by (auto simp: augment_batch_def ext_bind_def ext_return_def split_def
      split: sum.splits prod.splits)

theorem single_stream_augmentation_witness:
  "augment_batch toy_api (toy_self 1) toy_batch 0 =
     (Inr (toy_batch\<lparr>images_aug := Some [2, 1]\<rparr>), 1) \<and>
   augment_batch toy_api (toy_self 1) toy_batch_kp 0 =
     (Inr (toy_batch_kp\<lparr>keypoints_aug := Some [-7, -8]\<rparr>), 1) \<and>
   fst (fst (augment_images_worker_loop toy_api (toy_self 1)
      [\<lparr>polled = Some toy_batch, source_finished = False\<rparr>] 0)) =
     [Some (toy_batch\<lparr>images_aug := Some [2, 1]\<rparr>)]"
proof -
  have f: "self_augment_images (toy_self 1)" "self_augment_images_gt (toy_self 1)"
    "self_augment_keypoints (toy_self 1)"
    by (simp_all add: toy_self_def)
  have i: "images toy_batch \<noteq> None \<and> keypoints toy_batch = None \<and> images_gt toy_batch = None"
    by (simp add: toy_batch_def Batch_init_def)
  have k: "keypoints toy_batch_kp \<noteq> None \<and> images toy_batch_kp = None \<and> images_gt toy_batch_kp = None"
    by (simp add: toy_batch_kp_def Batch_init_def)
  have a1: "augment_images toy_api (augseq (toy_self 1)) (images toy_batch) 0 = (Inr (Some [2, 1]), 1)"
    by (simp add: toy_api_def toy_self_def toy_batch_def Batch_init_def)
  have a2: "augment_keypoints toy_api (augseq (toy_self 1)) (keypoints toy_batch_kp) 0 = (Inr (Some [-7, -8]), 1)"
    by (simp add: toy_api_def toy_self_def toy_batch_kp_def Batch_init_def)
  note s1 = single_stream_augmentation [OF f, where api = toy_api and b = toy_batch and x = 0
      and t = "\<lparr>polled = Some toy_batch, source_finished = False\<rparr>" and ts = "[]"
      and ?b1.0 = "toy_batch\<lparr>images_aug := Some [2, 1]\<rparr>" and ?x1.0 = 1]
  note s2 = single_stream_augmentation [OF f, where api = toy_api and b = toy_batch_kp and x = 0
      and t = "\<lparr>polled = Some toy_batch_kp, source_finished = False\<rparr>" and ts = "[]"
      and ?b1.0 = "toy_batch_kp" and ?x1.0 = 1]
  have e1: "augment_batch toy_api (toy_self 1) toy_batch 0 =
     (Inr (toy_batch\<lparr>images_aug := Some [2, 1]\<rparr>), 1)"
    using s1 i a1 by simp
  have e2: "augment_batch toy_api (toy_self 1) toy_batch_kp 0 =
     (Inr (toy_batch_kp\<lparr>keypoints_aug := Some [-7, -8]\<rparr>), 1)"
    using s2 k a2 by simp
  have e3: "fst (fst (augment_images_worker_loop toy_api (toy_self 1)
      [\<lparr>polled = Some toy_batch, source_finished = False\<rparr>] 0)) =
     [Some (toy_batch\<lparr>images_aug := Some [2, 1]\<rparr>)]"
    using s1 e1 by simp
  show ?thesis
    by (intro conjI) (rule e1, rule e2, rule e3)
qed

text \<open>
  For a batch with ground-truth images only, no pipeline is applied: the worker pushes
  the batch with \<^verbatim>\<open>images_gt_aug\<close> still \<^verbatim>\<open>None\<close>.
\<close>

theorem ground_truth_only_counterexample:
  "images_gt toy_batch_gt = Some [3, 4] \<and> images toy_batch_gt = None \<and>
   keypoints toy_batch_gt = None \<and>
   augment_images_worker_loop toy_api (toy_self 1)
     [\<lparr>polled = Some toy_batch_gt, source_finished = False\<rparr>] 0 =
     (([Some toy_batch_gt], Running), 0) \<and>
   images_gt_aug toy_batch_gt = None"
  by (simp add: toy_defs)

text \<open>
  C6, as amended. An exception other than \<^verbatim>\<open>QueueEmpty\<close> that the augmentation of a
  batch raises is not caught: it leaves the worker's loop at once, nothing more is pushed,
  and a worker that ends by an exception has pushed no sentinel. A timeout of the poll on
  the input queue is caught: the worker pushes the sentinel and returns when all loaders
  have finished, and polls again otherwise.
\<close>

theorem augmentation_failure_ends_worker:
  "(polled t = Some b \<and> augment_batch api self b x = (Inl e, x1) \<and> e \<noteq> QueueEmpty \<longrightarrow>
      augment_images_worker_loop api self (t # ts) x = (([], Raised e), x1)) \<and>
   (snd (fst (augment_images_worker_loop api self ts x)) = Raised e \<longrightarrow>
      e \<noteq> QueueEmpty \<and> None \<notin> set (fst (fst (augment_images_worker_loop api self ts x)))) \<and>
   (polled t = None \<longrightarrow>
      augment_images_worker_loop api self (t # ts) x =
        (if source_finished t then (([None], Returned), x)
         else augment_images_worker_loop api self ts x))"
proof -
  have r: "snd (fst (augment_images_worker_loop api self ts x)) = Raised e \<Longrightarrow>
      e \<noteq> QueueEmpty \<and> None \<notin> set (fst (fst (augment_images_worker_loop api self ts x)))"
  proof (induction ts arbitrary: x)
    case Nil
    then show ?case by simp
  next
    case (Cons t ts)
    obtain r x1 where a: "(case polled t of None \<Rightarrow> (Inl QueueEmpty, x)
        | Some batch \<Rightarrow> augment_batch api self batch x) = (r, x1)"
      by (cases "case polled t of None \<Rightarrow> (Inl QueueEmpty, x)
        | Some batch \<Rightarrow> augment_batch api self batch x")
    show ?case
    proof (cases r)
      case (Inr b1)
      with a Cons.prems have "snd (fst (augment_images_worker_loop api self ts x1)) = Raised e"
        by (simp add: split_def)
      from Cons.IH [OF this] a Inr show ?thesis by (simp add: split_def)
    next
      case (Inl exc)
      show ?thesis
      proof (cases "exc = QueueEmpty")
        case True
        with a Inl Cons.prems have "snd (fst (augment_images_worker_loop api self ts x1)) = Raised e"
          by (simp split: if_splits)
        from Cons.IH [OF this] a Inl True Cons.prems show ?thesis by (simp split: if_splits)
      next
        case False
        with a Inl Cons.prems show ?thesis by simp
      qed
    qed
  qed
  then show ?thesis by simp
qed

theorem augmentation_failure_ends_worker_witness:
  "augment_batch toy_api (toy_self 13) toy_batch 0 = (Inl (OtherException ''boom''), 1) \<and>
   augment_images_worker_loop toy_api (toy_self 13)
     [\<lparr>polled = Some toy_batch, source_finished = True\<rparr>,
      \<lparr>polled = None, source_finished = True\<rparr>] 0 = (([], Raised (OtherException ''boom'')), 1) \<and>
   augment_images_worker_loop toy_api (toy_self 13)
     [\<lparr>polled = None :: (nat list, int list, string) Batch option, source_finished = False\<rparr>,
      \<lparr>polled = None, source_finished = True\<rparr>] 0 = (([None], Returned), 0)"
proof -
  let ?t = "\<lparr>polled = Some toy_batch, source_finished = True\<rparr>"
  let ?u = "\<lparr>polled = None :: (nat list, int list, string) Batch option, source_finished = True\<rparr>"
  let ?v = "\<lparr>polled = None :: (nat list, int list, string) Batch option, source_finished = False\<rparr>"
  have e: "augment_batch toy_api (toy_self 13) toy_batch 0 = (Inl (OtherException ''boom''), 1)"
    by (simp add: toy_defs)
  have r1: "augment_images_worker_loop toy_api (toy_self 13) [?t, ?u] 0 =
      (([], Raised (OtherException ''boom'')), 1)"
    using augmentation_failure_ends_worker [of ?t toy_batch toy_api "toy_self 13" 0
        "OtherException ''boom''" 1 "[?u]"] e
    by simp
  have r2: "augment_images_worker_loop toy_api (toy_self 13) [?u] 0 = (([None], Returned), 0)"
    using augmentation_failure_ends_worker [of ?u toy_batch toy_api "toy_self 13" 0
        "OtherException ''boom''" 1 "[]"]
    by simp
  have r3: "augment_images_worker_loop toy_api (toy_self 13) [?v, ?u] 0 = (([None], Returned), 0)"
    using augmentation_failure_ends_worker [of ?v toy_batch toy_api "toy_self 13" 0
        "OtherException ''boom''" 1 "[?u]"] r2
    by simp
  show ?thesis
    by (intro conjI) (rule e, rule r1, rule r3)
qed

text \<open>
  The handler \<^verbatim>\<open>except QueueEmpty\<close> guards the whole \<^verbatim>\<open>try\<close> block: a \<^verbatim>\<open>QueueEmpty\<close>
  raised by an augmenter is caught like a timeout, and the worker then pushes its sentinel.
\<close>

theorem augmentation_queue_empty_counterexample:
  "augment_images toy_api 7 (Some [1, 2]) 0 = (Inl QueueEmpty, 1) \<and>
   augment_batch toy_api (toy_self 7) toy_batch 0 = (Inl QueueEmpty, 1) \<and>
   augment_images_worker_loop toy_api (toy_self 7)
     [\<lparr>polled = Some toy_batch, source_finished = True\<rparr>] 0 = (([None], Returned), 1)"
  by (simp add: toy_defs)

section \<open>Properties of the batch loader\<close>

lemma start_workers_eq:
  "start_workers thr seeds idxs acc =
     (fst acc @ replicate (length idxs) False,
      snd acc @ map (\<lambda>i. if thr then \<lparr>in_thread = True, seedval = None\<rparr>
                          else \<lparr>in_thread = False, seedval = Some (seeds ! i)\<rparr>) idxs)"
proof (induction idxs arbitrary: acc)
  case Nil
  show ?case by simp
next
  case (Cons i idxs)
  show ?case by (simp add: Cons.IH replicate_app_Cons_same)
qed

lemma BatchLoader_init_ok:
  assumes "0 < queue_size" and "1 \<le> nb"
  shows "BatchLoader_init g queue_size nb thr w =
     (Inr \<lparr>queue = [], queue_maxsize = queue_size, queue_closed = False, join_signal = False,
           finished_signals = replicate (nat nb) False,
           workers = map (\<lambda>i. if thr then \<lparr>in_thread = True, seedval = None\<rparr>
                               else \<lparr>in_thread = False,
                                     seedval = Some (fst (rs_randint g current_random_state (nat nb) w) ! i)\<rparr>)
                       [0..<nat nb],
           threaded = thr\<rparr>,
      snd (rs_randint g current_random_state (nat nb) w))"
  using assms
  by (simp add: BatchLoader_init_def do_assert_def start_workers_eq split_def Let_def)

lemma BatchLoader_init_world:
  "snd (BatchLoader_init g queue_size nb thr w :: (exn + 'b BatchLoader) \<times> 'v world) =
     (if 0 < queue_size \<and> 1 \<le> nb then snd (rs_randint g current_random_state (nat nb) w) else w)"
  by (simp add: BatchLoader_init_def do_assert_def split_def Let_def)

text \<open>
  C10. The construction of a \<^verbatim>\<open>BatchLoader\<close> draws its \<^verbatim>\<open>nb_workers\<close> worker seeds from
  the root stream in one call of \<^verbatim>\<open>randint\<close>, whatever the mode: the interpreter state
  after the construction in thread mode is the one after the construction in process
  mode, and (when the two assertions hold) it is the state after \<^verbatim>\<open>nb_workers\<close> draws
  from the root stream. The thread-mode workers all get the seed \<^verbatim>\<open>None\<close>, the
  process-mode workers get the seeds drawn, and \<^verbatim>\<open>_load_batches\<close> reseeds nothing for
  the seed \<^verbatim>\<open>None\<close>.
\<close>

theorem BatchLoader_init_draws_seeds:
  "snd (BatchLoader_init g queue_size nb True w :: (exn + 'b BatchLoader) \<times> 'v world) =
     snd (BatchLoader_init g queue_size nb False w :: (exn + 'b BatchLoader) \<times> 'v world) \<and>
   (0 < queue_size \<and> 1 \<le> nb \<longrightarrow>
      snd (BatchLoader_init g queue_size nb thr w :: (exn + 'b BatchLoader) \<times> 'v world) =
        snd (rs_randint g current_random_state (nat nb) w) \<and>
      (valid_ref w current_random_state \<longrightarrow>
         get_state (snd (BatchLoader_init g queue_size nb thr w :: (exn + 'b BatchLoader) \<times> 'v world))
             current_random_state =
           snd (randint g (nat nb) (get_state w current_random_state))) \<and>
      (case fst (BatchLoader_init g queue_size nb True w :: (exn + 'b BatchLoader) \<times> 'v world) of
         Inl e \<Rightarrow> False
       | Inr loader \<Rightarrow> threaded loader \<and> map seedval (workers loader) = replicate (nat nb) None) \<and>
      (case fst (BatchLoader_init g queue_size nb False w :: (exn + 'b BatchLoader) \<times> 'v world) of
         Inl e \<Rightarrow> False
       | Inr loader \<Rightarrow>
           \<not> threaded loader \<and>
           map seedval (workers loader) =
             map Some (fst (rs_randint g current_random_state (nat nb) w)))) \<and>
   load_batches_reseed g None w = w"
proof -
  have w: "snd (BatchLoader_init g queue_size nb True w :: (exn + 'b BatchLoader) \<times> 'v world) =
     snd (BatchLoader_init g queue_size nb False w :: (exn + 'b BatchLoader) \<times> 'v world)"
    by (simp add: BatchLoader_init_world)
  have r: "load_batches_reseed g None w = w"
    by (simp add: load_batches_reseed_def)
  have root: "get_state (snd (rs_randint g current_random_state (nat nb) w)) current_random_state =
      snd (randint g (nat nb) (get_state w current_random_state))"
    if "valid_ref w current_random_state"
    using that by (simp add: rs_randint_def split_def Let_def get_state_set_state_same)
  have thr_seeds: "map seedval (map (\<lambda>i. \<lparr>in_thread = True, seedval = None\<rparr>) [0..<nat nb]) =
      replicate (nat nb) None"
    by (simp add: comp_def map_replicate_const)
  have proc_seeds: "map seedval (map (\<lambda>i. \<lparr>in_thread = False,
        seedval = Some (fst (rs_randint g current_random_state (nat nb) w) ! i)\<rparr>) [0..<nat nb]) =
      map Some (fst (rs_randint g current_random_state (nat nb) w))"
  proof -
    let ?seeds = "fst (rs_randint g current_random_state (nat nb) w)"
    have "map (\<lambda>i. Some (?seeds ! i)) [0..<length ?seeds] = map Some (map (\<lambda>i. ?seeds ! i) [0..<length ?seeds])"
      by (simp add: comp_def)
    also have "\<dots> = map Some ?seeds" by (simp only: map_nth)
    finally show ?thesis by (simp add: comp_def)
  qed
  show ?thesis
    using w r root thr_seeds proc_seeds
    by (simp add: BatchLoader_init_ok)
qed

lemma drain_empty [simp]: "drain q = []"
  by (induction q) simp_all

lemma join_threads_Some:
  "join_threads will_exit idxs fs = Some fs' \<Longrightarrow>
     length fs' = length fs \<and> (\<forall>i<length fs. fs' ! i = (fs ! i \<or> i \<in> set idxs))"
proof (induction idxs arbitrary: fs)
  case Nil
  then show ?case by simp
next
  case (Cons j idxs)
  from Cons.prems have j: "will_exit j"
    and rest: "join_threads will_exit idxs (fs[j := True]) = Some fs'"
    by (simp_all split: if_splits)
  have upd: "fs[j := True] ! i = (i = j \<or> fs ! i)" if "i < length fs" for i
    using that by (cases "i = j") simp_all
  from Cons.IH [OF rest] have "length fs' = length fs"
    and "\<forall>i<length fs. fs' ! i = (fs[j := True] ! i \<or> i \<in> set idxs)"
    by simp_all
  with upd show ?case by auto
qed

lemma join_threads_returns:
  "(join_threads will_exit idxs fs \<noteq> None) = (\<forall>i\<in>set idxs. will_exit i)"
  by (induction idxs arbitrary: fs) simp_all

lemma put_events_only:
  "set (fst (load_batches_loop ys gend ts)) \<subseteq> range Put"
proof (induction ys arbitrary: ts)
  case Nil
  show ?case by simp
next
  case (Cons y ys)
  show ?case
  proof (cases y)
    case (IsBatch b)
    obtain pe ts1 where p: "put_retry ts = (pe, ts1)" by (cases "put_retry ts")
    show ?thesis
    proof (cases ts1)
      case Nil
      with IsBatch p show ?thesis by (cases pe) auto
    next
      case (Cons t ts2)
      with IsBatch p Cons.IH [of ts2] show ?thesis
        by (cases pe) (auto simp: split_def)
    qed
  qed simp_all
qed

lemma load_batches_loop_benign:
  "\<forall>t\<in>set ts. \<not> join_is_set t \<and> put_raises t = None \<Longrightarrow> 2 * length bs \<le> length ts \<Longrightarrow>
     load_batches_loop (map IsBatch bs) gend ts =
       (map Put bs, case gend of Exhausted \<Rightarrow> LoopDone | GenRaises e \<Rightarrow> LoopRaised e)"
proof (induction bs arbitrary: ts)
  case Nil
  show ?case by simp
next
  case (Cons b bs)
  from Cons.prems(2) obtain t1 t2 ts2 where ts: "ts = t1 # t2 # ts2"
    by (cases ts; cases "tl ts") auto
  with Cons.prems have "\<forall>t\<in>set ts2. \<not> join_is_set t \<and> put_raises t = None"
    and "2 * length bs \<le> length ts2" by simp_all
  from Cons.IH [OF this] ts Cons.prems(1) show ?case by simp
qed


theorem BatchLoader_init_draws_seeds_witness:
  "(BatchLoader_init lcg 50 2 True lcg_world :: (exn + nat BatchLoader) \<times> int world) =
     (Inr \<lparr>queue = [], queue_maxsize = 50, queue_closed = False, join_signal = False,
           finished_signals = [False, False],
           workers = [\<lparr>in_thread = True, seedval = None\<rparr>, \<lparr>in_thread = True, seedval = None\<rparr>],
           threaded = True\<rparr>,
      lcg_world\<lparr>heap := [1116302264]\<rparr>) \<and>
   (BatchLoader_init lcg 50 2 False lcg_world :: (exn + nat BatchLoader) \<times> int world) =
     (Inr \<lparr>queue = [], queue_maxsize = 50, queue_closed = False, join_signal = False,
           finished_signals = [False, False],
           workers = [\<lparr>in_thread = False, seedval = Some 652635\<rparr>,
                      \<lparr>in_thread = False, seedval = Some 443960\<rparr>],
           threaded = False\<rparr>,
      lcg_world\<lparr>heap := [1116302264]\<rparr>) \<and>
   snd (BatchLoader_init lcg 50 2 True lcg_world :: (exn + nat BatchLoader) \<times> int world) =
     snd (BatchLoader_init lcg 50 2 False lcg_world :: (exn + nat BatchLoader) \<times> int world)"
proof -
  have d: "rs_randint lcg current_random_state (Suc (Suc 0)) lcg_world =
      ([652635, 443960], lcg_world\<lparr>heap := [1116302264]\<rparr>)"
    by (simp add: rs_randint_def get_state_def set_state_def current_random_state_def
        CURRENT_RANDOM_STATE_def lcg_world_def initial_world_def lcg_def Let_def)
  have t: "(BatchLoader_init lcg 50 2 True lcg_world :: (exn + nat BatchLoader) \<times> int world) =
     (Inr \<lparr>queue = [], queue_maxsize = 50, queue_closed = False, join_signal = False,
           finished_signals = [False, False],
           workers = [\<lparr>in_thread = True, seedval = None\<rparr>, \<lparr>in_thread = True, seedval = None\<rparr>],
           threaded = True\<rparr>,
      lcg_world\<lparr>heap := [1116302264]\<rparr>)"
    by (simp add: BatchLoader_init_def do_assert_def d numeral_2_eq_2)
  have p: "(BatchLoader_init lcg 50 2 False lcg_world :: (exn + nat BatchLoader) \<times> int world) =
     (Inr \<lparr>queue = [], queue_maxsize = 50, queue_closed = False, join_signal = False,
           finished_signals = [False, False],
           workers = [\<lparr>in_thread = False, seedval = Some 652635\<rparr>,
                      \<lparr>in_thread = False, seedval = Some 443960\<rparr>],
           threaded = False\<rparr>,
      lcg_world\<lparr>heap := [1116302264]\<rparr>)"
    by (simp add: BatchLoader_init_def do_assert_def d numeral_2_eq_2)
  have s: "snd (BatchLoader_init lcg 50 2 True lcg_world :: (exn + nat BatchLoader) \<times> int world) =
     snd (BatchLoader_init lcg 50 2 False lcg_world :: (exn + nat BatchLoader) \<times> int world)"
    using BatchLoader_init_draws_seeds [where g = lcg and queue_size = 50 and nb = 2
        and w = lcg_world and thr = True] by (rule conjunct1)
  show ?thesis
    by (intro conjI) (rule t, rule p, rule s)
qed

text \<open>
  C5, as amended. Whenever a producer worker leaves its loop, by the exhaustion of the
  generator, by the stop flag or by an exception, it sets its own finished flag exactly
  once, as its last action, after every payload that it queued; while it is still in
  the loop the flag is not set. An exception of class \<^verbatim>\<open>Exception\<close> (raised by the
  generator, by the assertion on the yielded object, by the pickling or by the queue) is
  caught, its traceback is printed and the function returns normally. An exception
  outside that class passes the clause \<^verbatim>\<open>except Exception\<close>: the flag is still set, and
  the exception leaves the function. With a queue that accepts every payload, a stop flag
  that stays unset and a generator that yields the batches \<open>bs\<close>, the worker does come to
  the end of the generator and has then queued exactly \<open>bs\<close>.
\<close>

theorem load_batches_sets_finished_last:
  "(case load_batches g seed_arg ys gend ts w of
      ((tr, ex), w1) \<Rightarrow>
        (ex \<noteq> Running \<longrightarrow>
           (\<exists>bs lg. tr = map Put bs @ lg @ [SetFinished] \<and>
                     (lg = [] \<or> (\<exists>e. is_Exception e \<and> lg = [PrintExc e])))) \<and>
        (ex = Running \<longrightarrow> SetFinished \<notin> set tr) \<and>
        (\<forall>e. snd (load_batches_loop ys gend ts) = LoopRaised e \<and> is_Exception e \<longrightarrow>
           ex = Returned \<and> (\<exists>bs. tr = map Put bs @ [PrintExc e, SetFinished])) \<and>
        (\<forall>e. snd (load_batches_loop ys gend ts) = LoopRaised e \<and> \<not> is_Exception e \<longrightarrow>
           ex = Raised e \<and> (\<exists>bs. tr = map Put bs @ [SetFinished])) \<and>
        (snd (load_batches_loop ys gend ts) = LoopDone \<longrightarrow>
           ex = Returned \<and> (\<exists>bs. tr = map Put bs @ [SetFinished]))) \<and>
   ((\<forall>t\<in>set ts. \<not> join_is_set t \<and> put_raises t = None) \<and> 2 * length batches \<le> length ts \<longrightarrow>
      fst (load_batches g seed_arg (map IsBatch batches) gend ts w) =
        (case gend of
           Exhausted \<Rightarrow> (map Put batches @ [SetFinished], Returned)
         | GenRaises e \<Rightarrow>
             if is_Exception e then (map Put batches @ [PrintExc e, SetFinished], Returned)
             else (map Put batches @ [SetFinished], Raised e)))"
proof -
  obtain tr0 le where l: "load_batches_loop ys gend ts = (tr0, le)"
    by (cases "load_batches_loop ys gend ts")
  from put_events_only [of ys gend ts] l have "\<forall>ev\<in>set tr0. \<exists>b. ev = Put b"
    by auto
  then obtain bs where bs: "tr0 = map Put bs"
    by (metis ex_map_conv)
  have nf: "SetFinished \<notin> set (map Put bs)" by auto
  have part1: "case load_batches g seed_arg ys gend ts w of
      ((tr, ex), w1) \<Rightarrow>
        (ex \<noteq> Running \<longrightarrow>
           (\<exists>bs lg. tr = map Put bs @ lg @ [SetFinished] \<and>
                     (lg = [] \<or> (\<exists>e. is_Exception e \<and> lg = [PrintExc e])))) \<and>
        (ex = Running \<longrightarrow> SetFinished \<notin> set tr) \<and>
        (\<forall>e. snd (load_batches_loop ys gend ts) = LoopRaised e \<and> is_Exception e \<longrightarrow>
           ex = Returned \<and> (\<exists>bs. tr = map Put bs @ [PrintExc e, SetFinished])) \<and>
        (\<forall>e. snd (load_batches_loop ys gend ts) = LoopRaised e \<and> \<not> is_Exception e \<longrightarrow>
           ex = Raised e \<and> (\<exists>bs. tr = map Put bs @ [SetFinished])) \<and>
        (snd (load_batches_loop ys gend ts) = LoopDone \<longrightarrow>
           ex = Returned \<and> (\<exists>bs. tr = map Put bs @ [SetFinished]))"
  proof (cases le)
    case LoopDone
    have "\<exists>bs' lg. map Put bs @ [SetFinished] = map Put bs' @ lg @ [SetFinished] \<and>
        (lg = [] \<or> (\<exists>e. is_Exception e \<and> lg = [PrintExc e]))"
      by (rule exI [of _ bs], rule exI [of _ "[]"]) simp
    with LoopDone l bs show ?thesis
      by (auto simp: load_batches_def)
  next
    case (LoopRaised e)
    show ?thesis
    proof (cases "is_Exception e")
      case True
      have "\<exists>bs' lg. map Put bs @ [PrintExc e, SetFinished] = map Put bs' @ lg @ [SetFinished] \<and>
          (lg = [] \<or> (\<exists>e. is_Exception e \<and> lg = [PrintExc e]))"
        using True by (intro exI [of _ bs] exI [of _ "[PrintExc e]"]) simp
      with LoopRaised True l bs show ?thesis
        by (auto simp: load_batches_def)
    next
      case False
      have "\<exists>bs' lg. map Put bs @ [SetFinished] = map Put bs' @ lg @ [SetFinished] \<and>
          (lg = [] \<or> (\<exists>e. is_Exception e \<and> lg = [PrintExc e]))"
        by (rule exI [of _ bs], rule exI [of _ "[]"]) simp
      with LoopRaised False l bs show ?thesis
        by (auto simp: load_batches_def)
    qed
  next
    case OutOfTicks
    with l bs nf show ?thesis
      by (simp add: load_batches_def)
  qed
  have part2: "(\<forall>t\<in>set ts. \<not> join_is_set t \<and> put_raises t = None) \<and> 2 * length batches \<le> length ts \<longrightarrow>
      fst (load_batches g seed_arg (map IsBatch batches) gend ts w) =
        (case gend of
           Exhausted \<Rightarrow> (map Put batches @ [SetFinished], Returned)
         | GenRaises e \<Rightarrow>
             if is_Exception e then (map Put batches @ [PrintExc e, SetFinished], Returned)
             else (map Put batches @ [SetFinished], Raised e))"
    by (auto simp: load_batches_def load_batches_loop_benign split: gen_end.splits)
  from part1 part2 show ?thesis by (rule conjI)
qed


theorem load_batches_sets_finished_last_witness:
  "snd (load_batches_loop [IsBatch (1::nat), IsBatch 2] (GenRaises (OtherException ''io''))
          [tick_full, tick_ok, tick_ok, tick_ok, tick_ok]) = LoopRaised (OtherException ''io'') \<and>
   is_Exception (OtherException ''io'') \<and>
   load_batches lcg None [IsBatch (1::nat), IsBatch 2] (GenRaises (OtherException ''io''))
     [tick_full, tick_ok, tick_ok, tick_ok, tick_ok] lcg_world =
     (([Put 1, Put 2, PrintExc (OtherException ''io''), SetFinished], Returned), lcg_world) \<and>
   fst (load_batches lcg None (map IsBatch [1::nat, 2]) Exhausted
     [tick_ok, tick_ok, tick_ok, tick_ok] lcg_world) = ([Put 1, Put 2, SetFinished], Returned)"
proof -
  let ?ts = "[tick_full, tick_ok, tick_ok, tick_ok, tick_ok]"
  let ?e = "OtherException ''io''"
  have l: "load_batches_loop [IsBatch (1::nat), IsBatch 2] (GenRaises ?e) ?ts =
      ([Put 1, Put 2], LoopRaised ?e)"
    by (simp add: tick_ok_def tick_full_def)
  then have l2: "snd (load_batches_loop [IsBatch (1::nat), IsBatch 2] (GenRaises ?e) ?ts) =
      LoopRaised ?e" by simp
  have i: "is_Exception ?e" by simp
  have r: "load_batches lcg None [IsBatch (1::nat), IsBatch 2] (GenRaises ?e) ?ts lcg_world =
     (([Put 1, Put 2, PrintExc ?e, SetFinished], Returned), lcg_world)"
    by (simp add: load_batches_def load_batches_reseed_def tick_ok_def tick_full_def)
  have b: "(\<forall>t\<in>set [tick_ok, tick_ok, tick_ok, tick_ok].
              \<not> join_is_set t \<and> put_raises t = None) \<and>
           2 * length [1::nat, 2] \<le> length [tick_ok, tick_ok, tick_ok, tick_ok]"
    by (simp add: tick_ok_def)
  have t: "fst (load_batches lcg None (map IsBatch [1::nat, 2]) Exhausted
     [tick_ok, tick_ok, tick_ok, tick_ok] lcg_world) = ([Put 1, Put 2, SetFinished], Returned)"
    using mp [OF conjunct2 [OF load_batches_sets_finished_last
          [where ts = "[tick_ok, tick_ok, tick_ok, tick_ok]"
            and batches = "[1::nat, 2]" and gend = Exhausted and g = lcg and seed_arg = None
            and w = lcg_world and ys = "[]"]] b]
    by simp
  show ?thesis
    by (intro conjI) (rule l2, rule i, rule r, rule t)
qed

text \<open>
  An exception of the generator that is no instance of \<^verbatim>\<open>Exception\<close> is neither caught
  nor logged: it leaves \<^verbatim>\<open>_load_batches\<close> after the finished flag is set.
\<close>

theorem load_batches_base_exception_counterexample:
  "load_batches lcg None [IsBatch (1::nat)] (GenRaises (BaseOnly ''KeyboardInterrupt''))
     [tick_ok, tick_ok] lcg_world =
     (([Put 1, SetFinished], Raised (BaseOnly ''KeyboardInterrupt'')), lcg_world)"
  by (simp add: load_batches_def load_batches_reseed_def tick_ok_def)

lemma all_finished_iff:
  "all_finished self = (\<forall>i<length (finished_signals self). finished_signals self ! i)"
  by (simp add: all_finished_def list_all_length)

text \<open>
  C8, as amended. When \<^verbatim>\<open>BatchLoader.terminate()\<close> is called on a loader whose queue is
  still open and returns, it returns normally, the stop flag is set, the payloads that
  were queued are drained, every worker's finished flag is set, so that
  \<^verbatim>\<open>all_finished()\<close> holds, in thread mode and in process mode alike, and the queue is
  closed. In process mode the call always returns. In thread mode it joins the workers
  without a timeout, and returns exactly when every worker thread leaves
  \<^verbatim>\<open>_load_batches\<close>.
\<close>

theorem terminate_spec:
  assumes "\<not> queue_closed self"
    and "length (finished_signals self) = length (workers self)"
  shows
    "(\<forall>r s'. terminate will_exit self = Some (r, s') \<longrightarrow>
        r = Inr () \<and> join_signal s' \<and> queue s' = [] \<and> all_finished s' \<and> queue_closed s' \<and>
        length (finished_signals s') = length (finished_signals self) \<and>
        workers s' = workers self \<and> threaded s' = threaded self) \<and>
     (\<not> threaded self \<longrightarrow> terminate will_exit self \<noteq> None) \<and>
     (threaded self \<longrightarrow>
        (terminate will_exit self \<noteq> None) = (\<forall>i<length (workers self). will_exit i))"
proof -
  let ?n = "length (workers self)"
  have thr: "all_finished (s\<lparr>finished_signals := fs\<rparr>) \<and> length fs = length (finished_signals self)"
    if "join_threads will_exit [0..<?n] (finished_signals self) = Some fs" for fs and s :: "'a BatchLoader"
    using join_threads_Some [OF that] assms(2)
    by (simp add: all_finished_iff)
  have prc: "all_finished (s\<lparr>finished_signals := map (\<lambda>_. True) (finished_signals self)\<rparr>)"
    for s :: "'a BatchLoader"
    by (simp add: all_finished_iff)
  have ret: "(join_threads will_exit [0..<?n] (finished_signals self) \<noteq> None) =
      (\<forall>i<?n. will_exit i)"
    unfolding join_threads_returns by auto
  show ?thesis
  proof (cases "threaded self")
    case True
    show ?thesis
    proof (cases "join_threads will_exit [0..<?n] (finished_signals self)")
      case None
      with True assms(1) ret show ?thesis
        by (simp add: terminate_def Let_def)
    next
      case (Some fs)
      with True assms(1) ret thr [OF Some] show ?thesis
        by (simp add: terminate_def Let_def all_finished_def)
    qed
  next
    case False
    with assms(1) prc show ?thesis
      by (simp add: terminate_def Let_def all_finished_def)
  qed
qed



theorem terminate_spec_witness:
  "\<not> queue_closed toy_loader \<and>
   length (finished_signals toy_loader) = length (workers toy_loader) \<and>
   terminate every_worker_exits toy_loader =
     Some (Inr (), toy_loader\<lparr>queue := [], queue_closed := True, join_signal := True,
                              finished_signals := [True, True]\<rparr>) \<and>
   all_finished (toy_loader\<lparr>queue := [], queue_closed := True, join_signal := True,
                            finished_signals := [True, True]\<rparr>) \<and>
   terminate every_worker_exits (toy_loader\<lparr>threaded := False\<rparr>) =
     Some (Inr (), toy_loader\<lparr>queue := [], queue_closed := True, join_signal := True,
                              finished_signals := [True, True], threaded := False\<rparr>)"
proof -
  have c: "\<not> queue_closed toy_loader"
    and n: "length (finished_signals toy_loader) = length (workers toy_loader)"
    by (simp_all add: toy_loader_def)
  have t: "terminate every_worker_exits toy_loader =
     Some (Inr (), toy_loader\<lparr>queue := [], queue_closed := True, join_signal := True,
                              finished_signals := [True, True]\<rparr>)"
    by (simp add: terminate_def toy_loader_def every_worker_exits_def second_worker_stuck_def
        Let_def numeral_2_eq_2 upt_rec)
  have a: "all_finished (toy_loader\<lparr>queue := [], queue_closed := True, join_signal := True,
                            finished_signals := [True, True]\<rparr>)"
    using terminate_spec [OF c n, of every_worker_exits] t by simp
  have p: "terminate every_worker_exits (toy_loader\<lparr>threaded := False\<rparr>) =
     Some (Inr (), toy_loader\<lparr>queue := [], queue_closed := True, join_signal := True,
                              finished_signals := [True, True], threaded := False\<rparr>)"
    by (simp add: terminate_def toy_loader_def every_worker_exits_def Let_def)
  show ?thesis
    by (intro conjI) (rule c, rule n, rule t, rule a, rule p)
qed

text \<open>
  \<^verbatim>\<open>terminate()\<close> never returns in thread mode when a worker (here the second) never
  leaves the generator; and a second call after a first one that returned does not return
  normally, since the drain loop reads from the closed queue.
\<close>

theorem terminate_counterexample:
  "terminate second_worker_stuck toy_loader = None \<and>
   terminate every_worker_exits toy_loader =
     Some (Inr (), toy_loader\<lparr>queue := [], queue_closed := True, join_signal := True,
                              finished_signals := [True, True]\<rparr>) \<and>
   terminate every_worker_exits
       (toy_loader\<lparr>queue := [], queue_closed := True, join_signal := True,
                   finished_signals := [True, True]\<rparr>) =
     Some (Inl (ValueError ''Queue is closed''),
           toy_loader\<lparr>queue := [], queue_closed := True, join_signal := True,
                       finished_signals := [True, True]\<rparr>)"
  by (simp add: terminate_def toy_loader_def every_worker_exits_def second_worker_stuck_def
        Let_def numeral_2_eq_2 upt_rec)

section \<open>Properties of the pipeline from the generator to the caller\<close>

lemma queued_map_Put [simp]: "queued (map Put bs) = bs"
  by (induction bs) simp_all










end
